theory Spec2Isabelle
  imports Main
begin

section \<open>Data model\<close>

text \<open>
  A cell of a pandas DataFrame read from a CSV file: a missing value (an empty field,
  which pandas reads as NaN), a number or a string. The cleaner only compares cells and
  tests them for being missing.
\<close>

datatype cell = NaN | Num int | Str string

text \<open>
  One data row of the frame. The cleaner names the columns \<open>ts\<close> and \<open>device\<close>; every
  other column is carried along unchanged in \<open>other\<close>.
\<close>

record row =
  ts :: cell
  device :: cell
  other :: "(string \<times> cell) list"

type_synonym DataFrame = "row list"

subsection \<open>data\_cleaner.py\<close>

text \<open>
  \<open>DataCleaner.stats\<close> is a dict with the two fixed keys \<open>duplicates_removed\<close> and
  \<open>missing_values_dropped\<close>; \<open>DataCleaner.__init__\<close> sets both to 0.
\<close>

record CleansingStats =
  duplicates_removed :: int
  missing_values_dropped :: int

record DataCleaner =
  stats :: CleansingStats

definition DataCleaner_init :: DataCleaner where
  "DataCleaner_init = \<lparr>stats = \<lparr>duplicates_removed = 0, missing_values_dropped = 0\<rparr>\<rparr>"

text \<open>
  \<open>df.drop_duplicates(subset=['ts', 'device'], keep='first')\<close>: a row is dropped when an
  earlier row of the frame has the same \<open>(ts, device)\<close> pair. pandas counts two missing
  values as equal here, as equality on \<open>cell\<close> does. \<open>seen\<close> holds the pairs of the rows
  already passed.
\<close>

definition subset_key :: "row \<Rightarrow> cell \<times> cell" where
  "subset_key r = (ts r, device r)"

primrec drop_duplicates_from :: "(cell \<times> cell) list \<Rightarrow> DataFrame \<Rightarrow> DataFrame" where
  "drop_duplicates_from seen [] = []"
| "drop_duplicates_from seen (r # rs) =
     (if subset_key r \<in> set seen then drop_duplicates_from seen rs
      else r # drop_duplicates_from (subset_key r # seen) rs)"

definition drop_duplicates :: "DataFrame \<Rightarrow> DataFrame" where
  "drop_duplicates df = drop_duplicates_from [] df"

text \<open>\<open>df.dropna(subset=['ts', 'device'])\<close>: a row is dropped when either cell is missing.\<close>

definition dropna :: "DataFrame \<Rightarrow> DataFrame" where
  "dropna df = filter (\<lambda>r. ts r \<noteq> NaN \<and> device r \<noteq> NaN) df"

text \<open>Python's \<open>len\<close> is an unbounded integer.\<close>

definition len :: "'a list \<Rightarrow> int" where
  "len xs = int (length xs)"

text \<open>
  The methods of \<open>DataCleaner\<close> mutate \<open>self.stats\<close>; the model returns the frame together
  with the cleaner after the call.
\<close>

definition remove_duplicates :: "DataCleaner \<Rightarrow> DataFrame \<Rightarrow> DataFrame \<times> DataCleaner" where
  "remove_duplicates self df =
     (let before = len df;
          df' = drop_duplicates df
      in (df', self\<lparr>stats := (stats self)\<lparr>duplicates_removed :=
                 duplicates_removed (stats self) + (before - len df')\<rparr>\<rparr>))"

definition handle_missing_values :: "DataCleaner \<Rightarrow> DataFrame \<Rightarrow> DataFrame \<times> DataCleaner" where
  "handle_missing_values self df =
     (let before = len df;
          df' = dropna df
      in (df', self\<lparr>stats := (stats self)\<lparr>missing_values_dropped :=
                 missing_values_dropped (stats self) + (before - len df')\<rparr>\<rparr>))"

definition cleanse :: "DataCleaner \<Rightarrow> DataFrame \<Rightarrow> DataFrame \<times> DataCleaner" where
  "cleanse self df =
     (let (df1, self1) = remove_duplicates self df
      in handle_missing_values self1 df1)"

subsection \<open>Errors\<close>

text \<open>
  The exceptions that the model follows out of the functions of \<open>batch_loader.py\<close>: a
  file that cannot be opened; \<open>EmptyDataError\<close>, which \<open>read_csv\<close> raises for a file
  without a line to take the columns from; \<open>KeyError\<close>, which \<open>drop_duplicates\<close> raises
  for a frame that lacks the column \<open>ts\<close> or \<open>device\<close>; \<open>ValueError\<close>, raised by \<open>range\<close>
  for a zero step and by \<open>read_csv\<close> for a negative \<open>nrows\<close>; and any exception of the
  store's driver other than \<open>BulkWriteError\<close>, which the loader does not catch. Other
  failures of the reader (a line that cannot be parsed, bytes that cannot be decoded) are
  not modelled.
\<close>

datatype error =
  FileNotFoundError | EmptyDataError | KeyError | ValueError | ConnectionFailure

subsection \<open>get\_csv\_row\_count\<close>

text \<open>
  \<open>open(filepath, 'r')\<close> reads text with universal newlines: \<open>\r\n\<close> and a lone \<open>\r\<close>
  both arrive as \<open>\n\<close>.
\<close>

definition LF :: char where
  "LF = CHR 0x0A"

definition CR :: char where
  "CR = CHR 0x0D"

fun universal_newlines :: "string \<Rightarrow> string" where
  "universal_newlines [] = []"
| "universal_newlines (c # cs) =
     (if c = CR then
        (case cs of
           [] \<Rightarrow> [LF]
         | d # ds \<Rightarrow> if d = LF then LF # universal_newlines ds else LF # universal_newlines cs)
      else c # universal_newlines cs)"

text \<open>
  Iterating over a text file yields its lines: each runs up to and including the next
  \<open>\n\<close>; what follows the last \<open>\n\<close> is a line of its own when it is not empty. \<open>cur\<close> is
  the line being collected, in reverse.
\<close>

fun iter_lines :: "string \<Rightarrow> string \<Rightarrow> string list" where
  "iter_lines cur [] = (if cur = [] then [] else [rev cur])"
| "iter_lines cur (c # cs) =
     (if c = LF then rev (c # cur) # iter_lines [] cs else iter_lines (c # cur) cs)"

text \<open>
  \<open>fs\<close> gives the text of the file at a path, \<open>None\<close> when \<open>open\<close> fails.
  \<open>sum(1 for _ in f) - 1\<close> counts the lines and subtracts one.
\<close>

definition get_csv_row_count :: "(string \<Rightarrow> string option) \<Rightarrow> string \<Rightarrow> error + int" where
  "get_csv_row_count fs filepath =
     (case fs filepath of
        None \<Rightarrow> Inl FileNotFoundError
      | Some text \<Rightarrow> Inr (int (length (iter_lines [] (universal_newlines text))) - 1))"

subsection \<open>Python's built-ins used by batch\_loader.py\<close>

text \<open>\<open>str(n)\<close> for an integer, as the f-string \<open>f'{start_row}-{end_row}'\<close> formats it.\<close>

fun str_nat :: "nat \<Rightarrow> string" where
  "str_nat n =
     (if n < 10 then [''0123456789'' ! n]
      else str_nat (n div 10) @ [''0123456789'' ! (n mod 10)])"

declare str_nat.simps [simp del]

definition str :: "int \<Rightarrow> string" where
  "str i = (if i < 0 then CHR ''-'' # str_nat (nat (- i)) else str_nat (nat i))"

text \<open>
  \<open>range(start, stop, step)\<close>: a zero step raises \<open>ValueError\<close>; otherwise it has
  \<open>max(0, (stop - start + step - 1) // step)\<close> elements for a positive step and
  \<open>max(0, (start - stop - step - 1) // (-step))\<close> for a negative one.
\<close>

definition range3 :: "int \<Rightarrow> int \<Rightarrow> int \<Rightarrow> error + int list" where
  "range3 start stop step =
     (if step = 0 then Inl ValueError
      else
        let n = (if 0 < step then (stop - start + step - 1) div step
                 else (start - stop - step - 1) div (- step))
        in Inr (map (\<lambda>k. start + int k * step) [0..<nat n]))"

text \<open>\<open>range(start, stop)\<close>, with step 1.\<close>

definition range2 :: "int \<Rightarrow> int \<Rightarrow> int list" where
  "range2 start stop = [start..stop - 1]"

text \<open>
  The slice \<open>xs[i:j]\<close>: a negative bound counts from the end, and both bounds are clamped
  to the list.
\<close>

definition slice :: "'a list \<Rightarrow> int \<Rightarrow> int \<Rightarrow> 'a list" where
  "slice xs i j =
     (let n = len xs;
          a = (if i < 0 then max 0 (n + i) else min i n);
          b = (if j < 0 then max 0 (n + j) else min j n)
      in take (nat (b - a)) (drop (nat a) xs))"

text \<open>\<open>d.get(key, default)\<close> on a dict with integer values.\<close>

definition dict_get :: "(string \<times> int) list \<Rightarrow> string \<Rightarrow> int \<Rightarrow> int" where
  "dict_get d k dflt = (case map_of d k of None \<Rightarrow> dflt | Some v \<Rightarrow> v)"

subsection \<open>The clock, the file system and the store\<close>

record datetime =
  year :: nat
  month :: nat
  day :: nat
  hour :: nat
  minute :: nat
  second :: nat
  microsecond :: nat

text \<open>
  \<open>strftime('%Y%m%d_%H%M%S')\<close>: every field in decimal, padded with zeros to its width.
  For a year below 1000 the padding of \<open>%Y\<close> depends on the C library of the platform;
  the years that the clock of a running loader gives have four digits.
\<close>

definition zfill :: "nat \<Rightarrow> string \<Rightarrow> string" where
  "zfill width s = replicate (width - length s) CHR ''0'' @ s"

definition strftime :: "datetime \<Rightarrow> string" where
  "strftime t =
     zfill 4 (str_nat (year t)) @ zfill 2 (str_nat (month t)) @ zfill 2 (str_nat (day t))
     @ ''_'' @ zfill 2 (str_nat (hour t)) @ zfill 2 (str_nat (minute t))
     @ zfill 2 (str_nat (second t))"

text \<open>
  The dict that the loader stores in the \<open>_metadata\<close> column. \<open>load_csv_chunk\<close> builds it
  with the three keys; \<open>load_full_csv\<close> leaves \<open>source_rows\<close> out (\<open>None\<close>).
\<close>

record ProvenanceMetadata =
  ingested_at :: datetime
  batch_id :: string
  source_rows :: "string option"

text \<open>A record of \<open>df.to_dict('records')\<close>: the row's columns and \<open>_metadata\<close>.\<close>

record document = row +
  metadata :: ProvenanceMetadata

text \<open>
  What one \<open>collection.insert_many(batch, ordered=False)\<close> does: it returns a result
  with the list of inserted ids, or raises \<open>BulkWriteError\<close> whose \<open>details\<close> dict the
  loader reads, or raises another exception of the driver (the server cannot be reached).
\<close>

datatype insert_outcome =
    InsertManyResult (inserted_ids: "nat list")
  | BulkWriteError (details: "(string \<times> int) list")
  | Unreachable

text \<open>
  A line of a CSV file as \<open>pandas.read_csv\<close> meets it: a blank line, which the reader
  passes over; a line that names the columns, \<open>ts\<close> and \<open>device\<close> among them (it carries
  the names of the other columns); or any other line, with the cells it gives when it is
  read as data.
\<close>

datatype csv_line = BlankLine | HeaderLine "string list" | DataLine row

text \<open>
  The rows that lines give when they are read as data. Blank lines give none; a line of
  column names that is read as data gives the names as strings.
\<close>

fun data_rows :: "csv_line list \<Rightarrow> DataFrame" where
  "data_rows [] = []"
| "data_rows (BlankLine # ls) = data_rows ls"
| "data_rows (HeaderLine names # ls) =
     \<lparr>ts = Str ''ts'', device = Str ''device'', other = map (\<lambda>n. (n, Str n)) names\<rparr>
       # data_rows ls"
| "data_rows (DataLine r # ls) = r # data_rows ls"

text \<open>
  What \<open>read_csv\<close> returns: a frame that has the columns \<open>ts\<close> and \<open>device\<close>, with its
  rows, or a frame that lacks one of them, on which the cleaner cannot work.
\<close>

datatype frame = Unkeyed | Keyed DataFrame

text \<open>
  The surroundings of a loader, which the model takes as given:
  \<^item> \<open>files\<close>: the lines of the file at a path, line 0 first, or \<open>None\<close> when the file
    cannot be opened;
  \<^item> \<open>clock\<close>: the value of the \<open>k\<close>-th call of \<open>datetime.now()\<close>;
  \<^item> \<open>store\<close>: the outcome of the \<open>k\<close>-th call of \<open>insert_many\<close>, given the documents.
\<close>

record env =
  files :: "string \<Rightarrow> csv_line list option"
  clock :: "nat \<Rightarrow> datetime"
  store :: "nat \<Rightarrow> document list \<Rightarrow> insert_outcome"

text \<open>
  What changes outside the loader while it runs: how often the clock has been read, and
  the batches passed to \<open>insert_many\<close> so far, in call order.
\<close>

record world =
  clock_reads :: nat
  sent :: "document list list"

definition now :: "env \<Rightarrow> world \<Rightarrow> datetime \<times> world" where
  "now e w = (clock e (clock_reads w), w\<lparr>clock_reads := Suc (clock_reads w)\<rparr>)"

text \<open>
  \<open>pd.read_csv(filepath, skiprows=..., nrows=...)\<close>. \<open>skiprows\<close> lists the numbers of the
  lines of the file to skip, counted from 0 over all lines, blank ones too. Of the lines
  that remain, the first that is not blank is taken for the header: when it does not name
  \<open>ts\<close> and \<open>device\<close> the frame lacks them, and when there is no such line the reader
  raises \<open>EmptyDataError\<close>. The lines after it are the data, blank lines passed over, and
  \<open>nrows\<close> bounds the number of data rows read; a negative \<open>nrows\<close> is rejected with
  \<open>ValueError\<close> once the header is read.
\<close>

definition with_header :: "csv_line \<Rightarrow> DataFrame \<Rightarrow> frame" where
  "with_header h rows = (case h of HeaderLine names \<Rightarrow> Keyed rows | _ \<Rightarrow> Unkeyed)"

definition read_csv :: "env \<Rightarrow> string \<Rightarrow> int list \<Rightarrow> int option \<Rightarrow> error + frame" where
  "read_csv e filepath skiprows nrows =
     (case files e filepath of
        None \<Rightarrow> Inl FileNotFoundError
      | Some lines \<Rightarrow>
          let kept = map snd (filter (\<lambda>(i, l). int i \<notin> set skiprows) (enumerate 0 lines))
          in (case dropWhile (\<lambda>l. l = BlankLine) kept of
                [] \<Rightarrow> Inl EmptyDataError
              | h # rest \<Rightarrow>
                  (case nrows of
                     None \<Rightarrow> Inr (with_header h (data_rows rest))
                   | Some n \<Rightarrow>
                       if n < 0 then Inl ValueError
                       else Inr (with_header h (take (nat n) (data_rows rest))))))"

subsection \<open>BatchLoader\<close>

text \<open>
  The fields of a \<open>BatchLoader\<close> that its load methods use. \<open>__init__\<close> constructs the one
  \<open>DataCleaner\<close> of the loader; the default \<open>batch_size\<close> is 1000.
\<close>

record BatchLoader =
  batch_size :: int
  cleaner :: DataCleaner

definition BatchLoader_init :: "int \<Rightarrow> BatchLoader" where
  "BatchLoader_init bsize = \<lparr>batch_size = bsize, cleaner = DataCleaner_init\<rparr>"

text \<open>
  \<open>df['_metadata'] = df.apply(lambda _: {...}, axis=1)\<close>: pandas calls the lambda once for
  every row, in row order, and each call evaluates \<open>datetime.now()\<close>. \<open>mk\<close> builds the dict
  from that reading. Only the readings whose value reaches a record are counted (on a
  frame without rows pandas may call the lambda once to find the shape of the result,
  and drops what it returns).
\<close>

fun apply_metadata ::
  "env \<Rightarrow> (datetime \<Rightarrow> ProvenanceMetadata) \<Rightarrow> DataFrame \<Rightarrow> world \<Rightarrow> document list \<times> world" where
  "apply_metadata e mk [] w = ([], w)"
| "apply_metadata e mk (r # rs) w =
     (let (t, w1) = now e w;
          (ds, w2) = apply_metadata e mk rs w1
      in (\<lparr>ts = ts r, device = device r, other = other r, metadata = mk t\<rparr> # ds, w2))"

text \<open>
  The body of \<open>for i in range(0, len(records), self.batch_size)\<close>, over the values of
  \<open>i\<close> that remain. An exception of \<open>insert_many\<close> other than \<open>BulkWriteError\<close> ends the
  loop and the call.
\<close>

fun insert_loop ::
  "env \<Rightarrow> int \<Rightarrow> document list \<Rightarrow> int list \<Rightarrow> int \<Rightarrow> world \<Rightarrow> (error + int) \<times> world" where
  "insert_loop e bsize records [] inserted_count w = (Inr inserted_count, w)"
| "insert_loop e bsize records (i # is) inserted_count w =
     (let batch = slice records i (i + bsize);
          w' = w\<lparr>sent := sent w @ [batch]\<rparr>
      in (case store e (length (sent w)) batch of
            InsertManyResult ids \<Rightarrow>
              insert_loop e bsize records is (inserted_count + len ids) w'
          | BulkWriteError d \<Rightarrow>
              insert_loop e bsize records is (inserted_count + dict_get d ''nInserted'' 0) w'
          | Unreachable \<Rightarrow> (Inl ConnectionFailure, w')))"

text \<open>
  In both load methods \<open>self.cleaner.cleanse(df)\<close> comes right after the read. On a frame
  that lacks \<open>ts\<close> or \<open>device\<close> its first step, \<open>drop_duplicates\<close>, raises \<open>KeyError\<close>
  before the cleaner has counted anything, and the load method lets the exception pass:
  that is the branch \<open>Unkeyed\<close> below. On the other frames \<open>cleanse\<close> is the function of
  the cleaner above.
\<close>

text \<open>The values of the statistics dict that a load call returns.\<close>

datatype pyval = PyInt int | PyStr string | PyStats CleansingStats

type_synonym stats_dict = "(string \<times> pyval) list"

definition load_csv_chunk ::
  "env \<Rightarrow> BatchLoader \<Rightarrow> string \<Rightarrow> int \<Rightarrow> int \<Rightarrow> string \<Rightarrow> world
     \<Rightarrow> (error + stats_dict) \<times> BatchLoader \<times> world" where
  "load_csv_chunk e self filepath start_row end_row bid w =
     (let nrows = end_row - start_row
      in case read_csv e filepath (range2 1 (start_row + 1)) (Some nrows) of
           Inl err \<Rightarrow> (Inl err, self, w)
         | Inr Unkeyed \<Rightarrow> (Inl KeyError, self, w)
         | Inr (Keyed df0) \<Rightarrow>
             let (df, cleaner') = cleanse (cleaner self) df0;
                 self' = self\<lparr>cleaner := cleaner'\<rparr>;
                 (records, w1) = apply_metadata e
                    (\<lambda>t. \<lparr>ingested_at = t, batch_id = bid,
                          source_rows = Some (str start_row @ ''-'' @ str end_row)\<rparr>) df w
             in (case range3 0 (len records) (batch_size self') of
                   Inl err \<Rightarrow> (Inl err, self', w1)
                 | Inr idxs \<Rightarrow>
                     (case insert_loop e (batch_size self') records idxs 0 w1 of
                        (Inl err, w2) \<Rightarrow> (Inl err, self', w2)
                      | (Inr inserted_count, w2) \<Rightarrow>
                          (Inr [(''rows_read'', PyInt nrows),
                                (''rows_after_cleansing'', PyInt (len df)),
                                (''rows_inserted'', PyInt inserted_count),
                                (''cleansing_stats'', PyStats (stats (cleaner self'))),
                                (''batch_id'', PyStr bid)],
                           self', w2))))"

text \<open>
  \<open>batch_id or f"full_{...}"\<close>: the given id when it is a non-empty string, else one made
  from the clock.
\<close>

definition default_batch_id :: "env \<Rightarrow> string option \<Rightarrow> world \<Rightarrow> string \<times> world" where
  "default_batch_id e bid w =
     (case bid of
        Some b \<Rightarrow> if b \<noteq> [] then (b, w)
                  else (let (t, w') = now e w in (''full_'' @ strftime t, w'))
      | None \<Rightarrow> (let (t, w') = now e w in (''full_'' @ strftime t, w')))"

definition load_full_csv ::
  "env \<Rightarrow> BatchLoader \<Rightarrow> string \<Rightarrow> string option \<Rightarrow> world
     \<Rightarrow> (error + stats_dict) \<times> BatchLoader \<times> world" where
  "load_full_csv e self filepath bid0 w0 =
     (let (bid, w) = default_batch_id e bid0 w0
      in case read_csv e filepath [] None of
           Inl err \<Rightarrow> (Inl err, self, w)
         | Inr Unkeyed \<Rightarrow> (Inl KeyError, self, w)
         | Inr (Keyed df0) \<Rightarrow>
             let total_rows = len df0;
                 (df, cleaner') = cleanse (cleaner self) df0;
                 self' = self\<lparr>cleaner := cleaner'\<rparr>;
                 (records, w1) = apply_metadata e
                    (\<lambda>t. \<lparr>ingested_at = t, batch_id = bid, source_rows = None\<rparr>) df w
             in (case range3 0 (len records) (batch_size self') of
                   Inl err \<Rightarrow> (Inl err, self', w1)
                 | Inr idxs \<Rightarrow>
                     (case insert_loop e (batch_size self') records idxs 0 w1 of
                        (Inl err, w2) \<Rightarrow> (Inl err, self', w2)
                      | (Inr inserted_count, w2) \<Rightarrow>
                          (Inr [(''total_rows_read'', PyInt total_rows),
                                (''rows_after_cleansing'', PyInt (len df)),
                                (''rows_inserted'', PyInt inserted_count),
                                (''cleansing_stats'', PyStats (stats (cleaner self'))),
                                (''batch_id'', PyStr bid)],
                           self', w2))))"

subsection \<open>Sequences of load calls\<close>

text \<open>
  A caller's use of one loader: load calls made one after the other on the same
  \<open>BatchLoader\<close>. A call that raises leaves the loader as the call left it (the cleaner
  keeps what it counted before the exception).
\<close>

datatype call = LoadChunk string int int string | LoadFull string "string option"

fun run_call ::
  "env \<Rightarrow> BatchLoader \<Rightarrow> call \<Rightarrow> world \<Rightarrow> (error + stats_dict) \<times> BatchLoader \<times> world" where
  "run_call e self (LoadChunk filepath start_row end_row bid) w =
     load_csv_chunk e self filepath start_row end_row bid w"
| "run_call e self (LoadFull filepath bid) w = load_full_csv e self filepath bid w"

fun run_calls ::
  "env \<Rightarrow> BatchLoader \<Rightarrow> call list \<Rightarrow> world \<Rightarrow> (error + stats_dict) list \<times> BatchLoader \<times> world" where
  "run_calls e self [] w = ([], self, w)"
| "run_calls e self (c # cs) w =
     (let (res, self1, w1) = run_call e self c w;
          (ress, self2, w2) = run_calls e self1 cs w1
      in (res # ress, self2, w2))"

subsection \<open>Quantities that the statements below speak of\<close>

text \<open>The frame that a call reads, before cleansing.\<close>

fun call_frame :: "env \<Rightarrow> call \<Rightarrow> error + frame" where
  "call_frame e (LoadChunk filepath start_row end_row bid) =
     read_csv e filepath (range2 1 (start_row + 1)) (Some (end_row - start_row))"
| "call_frame e (LoadFull filepath bid) = read_csv e filepath [] None"

text \<open>
  The rows of a frame that are repetitions of an earlier \<open>(ts, device)\<close> pair, and the
  rows that remain after their removal and miss \<open>ts\<close> or \<open>device\<close>.
\<close>

definition duplicates_in :: "DataFrame \<Rightarrow> int" where
  "duplicates_in df = len df - len (drop_duplicates df)"

definition missing_in :: "DataFrame \<Rightarrow> int" where
  "missing_in df = len (drop_duplicates df) - len (dropna (drop_duplicates df))"

text \<open>
  The rows that one call drops as duplicates and as incomplete: none when the read fails
  or the frame lacks \<open>ts\<close> or \<open>device\<close>.
\<close>

definition call_duplicates :: "env \<Rightarrow> call \<Rightarrow> int" where
  "call_duplicates e c =
     (case call_frame e c of Inr (Keyed df) \<Rightarrow> duplicates_in df | _ \<Rightarrow> 0)"

definition call_missing :: "env \<Rightarrow> call \<Rightarrow> int" where
  "call_missing e c =
     (case call_frame e c of Inr (Keyed df) \<Rightarrow> missing_in df | _ \<Rightarrow> 0)"

text \<open>The number that the loader adds to \<open>inserted_count\<close> for an outcome of \<open>insert_many\<close>.\<close>

fun reported :: "insert_outcome \<Rightarrow> int" where
  "reported (InsertManyResult ids) = len ids"
| "reported (BulkWriteError d) = dict_get d ''nInserted'' 0"
| "reported Unreachable = 0"

text \<open>
  The sub-batches \<open>records[i:i + batch_size]\<close> for \<open>i\<close> in
  \<open>range(0, len(records), batch_size)\<close>, and the outcomes of writing a list of batches
  when \<open>k\<close> calls of \<open>insert_many\<close> came before.
\<close>

definition sub_batches :: "int \<Rightarrow> 'a list \<Rightarrow> 'a list list" where
  "sub_batches bsize records =
     (case range3 0 (len records) bsize of
        Inl err \<Rightarrow> []
      | Inr idxs \<Rightarrow> map (\<lambda>i. slice records i (i + bsize)) idxs)"

definition outcomes :: "env \<Rightarrow> nat \<Rightarrow> document list list \<Rightarrow> insert_outcome list" where
  "outcomes e k batches = map (\<lambda>(j, b). store e j b) (enumerate k batches)"

text \<open>The documents that a call passed to \<open>insert_many\<close>: the batches sent since \<open>w\<close>.\<close>

definition written :: "world \<Rightarrow> world \<Rightarrow> document list" where
  "written w w' = concat (drop (length (sent w)) (sent w'))"

text \<open>The row that a document was made from: its columns without \<open>_metadata\<close>.\<close>

definition row_of :: "document \<Rightarrow> row" where
  "row_of d = \<lparr>ts = ts d, device = device d, other = other d\<rparr>"

subsection \<open>A sample file\<close>

text \<open>
  A header and ten data rows: rows 2 and 5 repeat the \<open>(ts, device)\<close> of rows 1 and 4, row 8 has no
  \<open>device\<close>. The clock advances by a microsecond between two readings, and the store
  inserts every document it is given.
\<close>

definition reading :: "int \<Rightarrow> string \<Rightarrow> row" where
  "reading t d = \<lparr>ts = Num t, device = Str d, other = []\<rparr>"

definition sensor_rows :: DataFrame where
  "sensor_rows =
     [reading 1 ''A'', reading 1 ''A'', reading 2 ''A'', reading 3 ''B'', reading 3 ''B'',
      reading 4 ''B'', reading 5 ''C'', \<lparr>ts = Num 6, device = NaN, other = []\<rparr>,
      reading 7 ''C'', reading 8 ''C'']"

definition sensor_env :: env where
  "sensor_env =
     \<lparr>files = (\<lambda>p. if p = ''sensors.csv''
                    then Some (HeaderLine [] # map DataLine sensor_rows) else None),
      clock = (\<lambda>k. \<lparr>year = 2024, month = 5, day = 17, hour = 9, minute = 30, second = 0,
                     microsecond = k\<rparr>),
      store = (\<lambda>k batch. InsertManyResult [0..<length batch])\<rparr>"

definition fresh_world :: world where
  "fresh_world = \<lparr>clock_reads = 0, sent = []\<rparr>"

text \<open>
  The same surroundings with a store that rejects three documents of the first batch it
  is given: \<open>insert_many\<close> raises \<open>BulkWriteError\<close> there, and its details report the
  others as inserted.
\<close>

definition flaky_env :: env where
  "flaky_env =
     sensor_env\<lparr>store := (\<lambda>k batch.
        if k = 0 then BulkWriteError [(''nInserted'', len batch - 3), (''nModified'', 0)]
        else InsertManyResult [0..<length batch])\<rparr>"



section \<open>The cleaner\<close>

lemma length_drop_duplicates_from: "length (drop_duplicates_from seen df) \<le> length df"
  by (induction df arbitrary: seen) (auto simp: le_SucI)

lemma key_not_seen:
  "x \<in> set (drop_duplicates_from seen df) \<Longrightarrow> subset_key x \<notin> set seen"
proof (induction df arbitrary: seen)
  case Nil
  then show ?case by simp
next
  case (Cons r rs)
  show ?case
  proof (cases "subset_key r \<in> set seen")
    case True
    with Cons show ?thesis by simp
  next
    case False
    with Cons.prems have "x = r \<or> x \<in> set (drop_duplicates_from (subset_key r # seen) rs)"
      by simp
    then show ?thesis
    proof
      assume "x = r"
      with False show ?thesis by simp
    next
      assume "x \<in> set (drop_duplicates_from (subset_key r # seen) rs)"
      from Cons.IH [OF this] show ?thesis by simp
    qed
  qed
qed

lemma distinct_drop_duplicates_from:
  "distinct (map subset_key (drop_duplicates_from seen df))"
proof (induction df arbitrary: seen)
  case Nil
  show ?case by simp
next
  case (Cons r rs)
  have "subset_key r \<notin> subset_key ` set (drop_duplicates_from (subset_key r # seen) rs)"
    using key_not_seen [of _ "subset_key r # seen" rs] by fastforce
  with Cons show ?case by simp
qed

lemma drop_duplicates_from_distinct:
  "distinct (map subset_key df) \<Longrightarrow> subset_key ` set df \<inter> set seen = {}
     \<Longrightarrow> drop_duplicates_from seen df = df"
  by (induction df arbitrary: seen) auto

lemma drop_duplicates_dropna:
  "drop_duplicates (dropna (drop_duplicates df)) = dropna (drop_duplicates df)"
  unfolding drop_duplicates_def dropna_def
  by (rule drop_duplicates_from_distinct)
     (simp_all add: distinct_map_filter distinct_drop_duplicates_from)

lemma dropna_idem: "dropna (dropna df) = dropna df"
  by (simp add: dropna_def)

lemma length_dropna: "length (dropna df) \<le> length df"
  by (simp add: dropna_def)

lemma length_drop_duplicates: "length (drop_duplicates df) \<le> length df"
  by (simp add: drop_duplicates_def length_drop_duplicates_from)

lemma fst_cleanse: "fst (cleanse self df) = dropna (drop_duplicates df)"
  by (simp add: cleanse_def remove_duplicates_def handle_missing_values_def Let_def)

lemma stats_cleanse:
  "stats (snd (cleanse self df)) =
     \<lparr>duplicates_removed = duplicates_removed (stats self) + (len df - len (drop_duplicates df)),
      missing_values_dropped = missing_values_dropped (stats self)
         + (len (drop_duplicates df) - len (dropna (drop_duplicates df)))\<rparr>"
  by (simp add: cleanse_def remove_duplicates_def handle_missing_values_def Let_def)

text \<open>
  C5. For every batch and every state of the cleaner, \<open>cleanse\<close> returns a batch no
  longer than its input, and the sum of the two counters grows by exactly the number of
  rows dropped: \<open>len(batch) - len(cleanse(batch))\<close>.
\<close>

theorem cleanse_accounts_for_every_dropped_row:
  "len (fst (cleanse self df)) \<le> len df \<and>
   (duplicates_removed (stats (snd (cleanse self df)))
      + missing_values_dropped (stats (snd (cleanse self df))))
   - (duplicates_removed (stats self) + missing_values_dropped (stats self))
   = len df - len (fst (cleanse self df))"
proof -
  have "length (dropna (drop_duplicates df)) \<le> length df"
    using length_dropna [of "drop_duplicates df"] length_drop_duplicates [of df] by linarith
  then show ?thesis
    by (simp add: fst_cleanse stats_cleanse len_def)
qed

text \<open>
  C6. Cleansing is idempotent: cleansing the output of \<open>cleanse\<close> again, with the cleaner
  as the first pass left it, returns that output unchanged (so no further row is dropped)
  and leaves the cleaner, with both of its counters, unchanged.
\<close>

theorem cleanse_idempotent:
  "cleanse (snd (cleanse self df)) (fst (cleanse self df))
     = (fst (cleanse self df), snd (cleanse self df))"
proof -
  have "fst (cleanse (snd (cleanse self df)) (fst (cleanse self df))) = fst (cleanse self df)"
    by (simp add: fst_cleanse drop_duplicates_dropna dropna_idem)
  moreover have "snd (cleanse (snd (cleanse self df)) (fst (cleanse self df)))
      = snd (cleanse self df)"
    by (simp add: cleanse_def remove_duplicates_def handle_missing_values_def Let_def
        drop_duplicates_dropna dropna_idem)
  ultimately show ?thesis
    by (simp add: prod_eq_iff)
qed

section \<open>Counting the rows of a file\<close>

lemma universal_newlines_no_CR: "CR \<notin> set s \<Longrightarrow> universal_newlines s = s"
  by (induction s) auto

lemma iter_lines_no_LF:
  "LF \<notin> set l \<Longrightarrow> iter_lines cur (l @ rest) = iter_lines (rev l @ cur) rest"
  by (induction l arbitrary: cur) auto

lemma iter_lines_line:
  "LF \<notin> set l \<Longrightarrow> iter_lines [] (l @ LF # rest) = (l @ [LF]) # iter_lines [] rest"
  by (simp add: iter_lines_no_LF)

lemma iter_lines_terminated:
  "\<forall>l \<in> set ls. LF \<notin> set l \<Longrightarrow>
     iter_lines [] (concat (map (\<lambda>l. l @ [LF]) ls) @ rest) = map (\<lambda>l. l @ [LF]) ls @ iter_lines [] rest"
  by (induction ls) (simp_all add: iter_lines_line)

lemma iter_lines_last:
  "LF \<notin> set l \<Longrightarrow> iter_lines [] l = (if l = [] then [] else [l])"
  using iter_lines_no_LF [of l "[]" "[]"] by simp

lemma length_iter_lines:
  "length (iter_lines cur s) =
     count_list s LF + (if (s = [] \<and> cur \<noteq> []) \<or> (s \<noteq> [] \<and> last s \<noteq> LF) then 1 else 0)"
  by (induction s arbitrary: cur) auto

lemma butlast_unlines:
  "butlast (concat (map (\<lambda>l. l @ [LF]) (ls @ [l]))) = concat (map (\<lambda>l. l @ [LF]) ls) @ l"
  by (simp add: butlast_append)

text \<open>
  C8. For a file made of a header line and \<open>n\<close> further lines (none of them holding a
  line break), \<open>get_csv_row_count\<close> returns \<open>n\<close>, whether every line ends with a
  newline or the last one, being non-empty, does not.
\<close>

theorem get_csv_row_count_counts_data_rows:
  assumes nl: "\<forall>l \<in> set (header # rows). LF \<notin> set l \<and> CR \<notin> set l"
    and opened: "fs filepath = Some text"
    and shape: "text = concat (map (\<lambda>l. l @ [LF]) (header # rows))
              \<or> (text = butlast (concat (map (\<lambda>l. l @ [LF]) (header # rows)))
                  \<and> last (header # rows) \<noteq> [])"
  shows "get_csv_row_count fs filepath = Inr (int (length rows))"
proof -
  let ?ls = "header # rows"
  have noLF: "\<forall>l \<in> set ?ls. LF \<notin> set l" and noCR: "\<forall>l \<in> set ?ls. CR \<notin> set l"
    using nl by auto
  have cr_full: "CR \<notin> set (concat (map (\<lambda>l. l @ [LF]) ?ls))"
    using noCR by (auto simp: CR_def LF_def)
  have "length (iter_lines [] (universal_newlines text)) = length ?ls"
    using shape
  proof
    assume t: "text = concat (map (\<lambda>l. l @ [LF]) ?ls)"
    have "iter_lines [] (concat (map (\<lambda>l. l @ [LF]) ?ls) @ []) = map (\<lambda>l. l @ [LF]) ?ls @ iter_lines [] []"
      by (rule iter_lines_terminated [OF noLF])
    then show ?thesis
      using t cr_full by (simp add: universal_newlines_no_CR)
  next
    assume t: "text = butlast (concat (map (\<lambda>l. l @ [LF]) ?ls)) \<and> last ?ls \<noteq> []"
    obtain ini l where split: "?ls = ini @ [l]"
      by (metis append_butlast_last_id list.distinct(1))
    then have l: "l = last ?ls" by (metis last_snoc)
    have t': "text = concat (map (\<lambda>l. l @ [LF]) ini) @ l"
      using t split butlast_unlines [of ini l] by simp
    have ini: "\<forall>x \<in> set ini. LF \<notin> set x" and lLF: "LF \<notin> set l"
      using noLF unfolding split by auto
    have "CR \<notin> set text"
      using cr_full t by (metis in_set_butlastD)
    then have "universal_newlines text = text"
      by (rule universal_newlines_no_CR)
    moreover have "iter_lines [] text = map (\<lambda>l. l @ [LF]) ini @ iter_lines [] l"
      unfolding t' by (rule iter_lines_terminated [OF ini])
    moreover have "iter_lines [] l = [l]"
      using iter_lines_last [OF lLF] t l by simp
    ultimately show ?thesis
      unfolding split by simp
  qed
  then show ?thesis
    using opened by (simp add: get_csv_row_count_def)
qed

theorem get_csv_row_count_counts_data_rows_witness:
  "get_csv_row_count (\<lambda>p. Some (''ts,device'' @ [LF] @ ''1,A'' @ [LF] @ ''2,B'' @ [LF])) ''data.csv'' = Inr 2
   \<and> get_csv_row_count (\<lambda>p. Some (''ts,device'' @ [LF] @ ''1,A'' @ [LF] @ ''2,B'')) ''data.csv'' = Inr 2"
  using get_csv_row_count_counts_data_rows
     [of "''ts,device''" "[''1,A'', ''2,B'']"
         "\<lambda>p. Some (''ts,device'' @ [LF] @ ''1,A'' @ [LF] @ ''2,B'' @ [LF])" "''data.csv''"
         "''ts,device'' @ [LF] @ ''1,A'' @ [LF] @ ''2,B'' @ [LF]"]
    get_csv_row_count_counts_data_rows
     [of "''ts,device''" "[''1,A'', ''2,B'']"
         "\<lambda>p. Some (''ts,device'' @ [LF] @ ''1,A'' @ [LF] @ ''2,B'')" "''data.csv''"
         "''ts,device'' @ [LF] @ ''1,A'' @ [LF] @ ''2,B''"]
  by (simp add: LF_def CR_def)

text \<open>
  C10. \<open>get_csv_row_count\<close> returns the number of lines of the file minus one, whatever
  the file holds: the newlines of the text, plus one for a last line without a newline,
  minus one. So an empty file gives \<open>-1\<close>, and a file holding only a header line gives 0.
\<close>

theorem get_csv_row_count_is_line_count_minus_one:
  assumes opened: "fs filepath = Some text"
  shows "get_csv_row_count fs filepath =
           Inr (int (count_list (universal_newlines text) LF)
                + (if universal_newlines text \<noteq> [] \<and> last (universal_newlines text) \<noteq> LF
                   then 1 else 0) - 1)
         \<and> (text = [] \<longrightarrow> get_csv_row_count fs filepath = Inr (- 1))
         \<and> (header \<noteq> [] \<and> LF \<notin> set header \<and> CR \<notin> set header
              \<and> (text = header \<or> text = header @ [LF])
            \<longrightarrow> get_csv_row_count fs filepath = Inr 0)"
proof (intro conjI impI)
  show "get_csv_row_count fs filepath =
           Inr (int (count_list (universal_newlines text) LF)
                + (if universal_newlines text \<noteq> [] \<and> last (universal_newlines text) \<noteq> LF
                   then 1 else 0) - 1)"
    using opened by (simp add: get_csv_row_count_def length_iter_lines)
next
  assume "text = []"
  then show "get_csv_row_count fs filepath = Inr (- 1)"
    using opened by (simp add: get_csv_row_count_def)
next
  assume h: "header \<noteq> [] \<and> LF \<notin> set header \<and> CR \<notin> set header
              \<and> (text = header \<or> text = header @ [LF])"
  then have "CR \<notin> set text"
    by (auto simp: CR_def LF_def)
  then have u: "universal_newlines text = text"
    by (rule universal_newlines_no_CR)
  from h have "iter_lines [] text = [header] \<or> iter_lines [] text = [header @ [LF]]"
    using iter_lines_last [of header] iter_lines_line [of header "[]"] by auto
  then have "length (iter_lines [] text) = 1"
    by auto
  then show "get_csv_row_count fs filepath = Inr 0"
    using opened u by (simp add: get_csv_row_count_def)
qed

theorem get_csv_row_count_is_line_count_minus_one_witness:
  "get_csv_row_count (\<lambda>p. Some []) ''empty.csv'' = Inr (- 1)
   \<and> get_csv_row_count (\<lambda>p. Some ''ts,device'') ''header.csv'' = Inr 0
   \<and> get_csv_row_count (\<lambda>p. Some (''ts,device'' @ [LF])) ''header.csv'' = Inr 0"
  using get_csv_row_count_is_line_count_minus_one [of "\<lambda>p. Some []" "''empty.csv''" "[]" "[]"]
    get_csv_row_count_is_line_count_minus_one
      [of "\<lambda>p. Some ''ts,device''" "''header.csv''" "''ts,device''" "''ts,device''"]
    get_csv_row_count_is_line_count_minus_one
      [of "\<lambda>p. Some (''ts,device'' @ [LF])" "''header.csv''" "''ts,device'' @ [LF]" "''ts,device''"]
  by (simp add: LF_def CR_def)

section \<open>The range read\<close>

lemma kept_after_skip:
  "map snd (filter (\<lambda>(i, l). int i \<notin> set (range2 1 (s + 1))) (enumerate n ls))
     = drop (nat (s + 1 - int n)) ls" if "1 \<le> n"
  using that
proof (induction ls arbitrary: n)
  case Nil
  show ?case by simp
next
  case (Cons l ls)
  have IH: "map snd (filter (\<lambda>(i, l). int i \<notin> set (range2 1 (s + 1))) (enumerate (Suc n) ls))
     = drop (nat (s + 1 - int (Suc n))) ls"
    by (rule Cons.IH) simp
  show ?case
  proof (cases "int n \<le> s")
    case True
    then have "nat (s + 1 - int n) = Suc (nat (s + 1 - int (Suc n)))"
      by simp
    with True Cons.prems IH show ?thesis
      by (simp add: range2_def)
  next
    case False
    then have "nat (s + 1 - int n) = 0" "nat (s + 1 - int (Suc n)) = 0"
      by simp_all
    with False IH show ?thesis
      by (simp add: range2_def)
  qed
qed

lemma kept_with_header:
  "map snd (filter (\<lambda>(i, l). int i \<notin> set (range2 1 (s + 1))) (enumerate 0 (h # ls)))
     = h # drop (nat s) ls"
  using kept_after_skip [of 1 s ls] by (simp add: range2_def)


lemma read_csv_chunk:
  assumes "files e filepath = Some (HeaderLine names # ls)"
  shows "read_csv e filepath (range2 1 (start_row + 1)) (Some n)
           = (if n < 0 then Inl ValueError
              else Inr (Keyed (take (nat n) (data_rows (drop (nat start_row) ls)))))"
  unfolding read_csv_def assms option.case Let_def kept_with_header
  by (simp add: with_header_def)


lemma cleanse_Nil: "cleanse c [] = ([], c)"
  by (simp add: cleanse_def remove_duplicates_def handle_missing_values_def Let_def
      drop_duplicates_def dropna_def len_def)

lemma range3_empty: "bsize \<noteq> 0 \<Longrightarrow> range3 0 0 bsize = Inr []"
  by (auto simp: range3_def Let_def)

lemma load_csv_chunk_empty_range:
  assumes "files e filepath = Some (HeaderLine names # ls)" "batch_size self \<noteq> 0"
  shows "load_csv_chunk e self filepath end_row end_row bid w =
           (Inr [(''rows_read'', PyInt 0), (''rows_after_cleansing'', PyInt 0),
                 (''rows_inserted'', PyInt 0),
                 (''cleansing_stats'', PyStats (stats (cleaner self))),
                 (''batch_id'', PyStr bid)], self, w)"
  using assms(2)
  by (simp add: load_csv_chunk_def read_csv_chunk [OF assms(1)] cleanse_Nil range3_empty len_def)



text \<open>
  C2, as the code has it. For a file that can be opened and whose first line names the
  columns: when \<open>start_row = end_row\<close> the read gives an empty batch and, for a
  \<open>batch_size\<close> other than 0, the call returns statistics of zero rows, leaves the
  cleaner as it was, writes nothing and raises nothing; when \<open>start_row > end_row\<close> the
  reader rejects the negative row count and the call raises \<open>ValueError\<close>.
\<close>

theorem empty_range_returns_empty_batch:
  assumes "files e filepath = Some (HeaderLine names # ls)"
  shows "(start_row = end_row \<longrightarrow>
            read_csv e filepath (range2 1 (start_row + 1)) (Some (end_row - start_row))
              = Inr (Keyed [])
            \<and> (batch_size self \<noteq> 0 \<longrightarrow>
                 fst (load_csv_chunk e self filepath start_row end_row bid w) =
                   Inr [(''rows_read'', PyInt 0), (''rows_after_cleansing'', PyInt 0),
                        (''rows_inserted'', PyInt 0),
                        (''cleansing_stats'', PyStats (stats (cleaner self))),
                        (''batch_id'', PyStr bid)]
                 \<and> fst (snd (load_csv_chunk e self filepath start_row end_row bid w)) = self
                 \<and> sent (snd (snd (load_csv_chunk e self filepath start_row end_row bid w)))
                     = sent w))
       \<and> (end_row < start_row \<longrightarrow>
            read_csv e filepath (range2 1 (start_row + 1)) (Some (end_row - start_row))
              = Inl ValueError
            \<and> load_csv_chunk e self filepath start_row end_row bid w = (Inl ValueError, self, w))"
proof (intro conjI impI)
  assume eq: "start_row = end_row"
  then show "read_csv e filepath (range2 1 (start_row + 1)) (Some (end_row - start_row))
               = Inr (Keyed [])"
    by (simp add: read_csv_chunk [OF assms])
  assume nz: "batch_size self \<noteq> 0"
  show "fst (load_csv_chunk e self filepath start_row end_row bid w) =
          Inr [(''rows_read'', PyInt 0), (''rows_after_cleansing'', PyInt 0),
               (''rows_inserted'', PyInt 0),
               (''cleansing_stats'', PyStats (stats (cleaner self))),
               (''batch_id'', PyStr bid)]"
    unfolding eq by (simp add: load_csv_chunk_empty_range [OF assms nz])
  show "fst (snd (load_csv_chunk e self filepath start_row end_row bid w)) = self"
    unfolding eq by (simp add: load_csv_chunk_empty_range [OF assms nz])
  show "sent (snd (snd (load_csv_chunk e self filepath start_row end_row bid w))) = sent w"
    unfolding eq by (simp add: load_csv_chunk_empty_range [OF assms nz])
next
  assume "end_row < start_row"
  then show r: "read_csv e filepath (range2 1 (start_row + 1)) (Some (end_row - start_row))
              = Inl ValueError"
    by (simp add: read_csv_chunk [OF assms])
  then show "load_csv_chunk e self filepath start_row end_row bid w = (Inl ValueError, self, w)"
    by (simp add: load_csv_chunk_def)
qed

theorem empty_range_returns_empty_batch_witness:
  "fst (load_csv_chunk sensor_env (BatchLoader_init 1000) ''sensors.csv'' 4 4 ''b1'' fresh_world) =
     Inr [(''rows_read'', PyInt 0), (''rows_after_cleansing'', PyInt 0),
          (''rows_inserted'', PyInt 0),
          (''cleansing_stats'', PyStats \<lparr>duplicates_removed = 0, missing_values_dropped = 0\<rparr>),
          (''batch_id'', PyStr ''b1'')]
   \<and> load_csv_chunk sensor_env (BatchLoader_init 1000) ''sensors.csv'' 5 3 ''b1'' fresh_world =
     (Inl ValueError, BatchLoader_init 1000, fresh_world)"
  using empty_range_returns_empty_batch
      [of sensor_env "''sensors.csv''" "[]" "map DataLine sensor_rows" 4 4 "BatchLoader_init 1000"
          "''b1''" fresh_world]
    empty_range_returns_empty_batch
      [of sensor_env "''sensors.csv''" "[]" "map DataLine sensor_rows" 5 3 "BatchLoader_init 1000"
          "''b1''" fresh_world]
  by (simp add: sensor_env_def BatchLoader_init_def DataCleaner_init_def)

text \<open>
  C2 as stated fails: with \<open>start_row = 5\<close> and \<open>end_row = 3\<close> on the sample file the call
  raises \<open>ValueError\<close>.
\<close>

theorem reversed_range_raises:
  "fst (load_csv_chunk sensor_env (BatchLoader_init 1000) ''sensors.csv'' 5 3 ''b1'' fresh_world)
     = Inl ValueError"
  by code_simp

section \<open>Annotation and the write loop\<close>

lemma apply_metadata_world:
  "snd (apply_metadata e mk df w) = w\<lparr>clock_reads := clock_reads w + length df\<rparr>"
  by (induction df arbitrary: w) (simp_all add: now_def split_def)

lemma apply_metadata_records:
  "fst (apply_metadata e mk df w) =
     map (\<lambda>(k, r). \<lparr>ts = ts r, device = device r, other = other r, metadata = mk (clock e k)\<rparr>)
       (enumerate (clock_reads w) df)"
  by (induction df arbitrary: w) (simp_all add: now_def split_def)

lemma length_apply_metadata: "length (fst (apply_metadata e mk df w)) = length df"
  by (simp add: apply_metadata_records)

lemma metadata_apply_metadata:
  "map metadata (fst (apply_metadata e mk df w))
     = map (\<lambda>k. mk (clock e k)) [clock_reads w..<clock_reads w + length df]"
proof -
  let ?ks = "[clock_reads w..<clock_reads w + length df]"
  have ks: "map fst (zip ?ks df) = ?ks"
    by (rule map_fst_zip) simp
  have "map metadata (fst (apply_metadata e mk df w))
          = map (\<lambda>x. mk (clock e (fst x))) (zip ?ks df)"
    by (simp add: apply_metadata_records enumerate_eq_zip split_def o_def)
  also have "\<dots> = map (\<lambda>k. mk (clock e k)) (map fst (zip ?ks df))"
    by (simp only: map_map o_def)
  finally show ?thesis
    by (simp only: ks)
qed

lemma row_of_apply_metadata: "map row_of (fst (apply_metadata e mk df w)) = df"
  by (induction df arbitrary: w) (simp_all add: now_def split_def row_of_def Let_def)

lemma slice_step:
  assumes "0 \<le> i" "0 < bsize"
  shows "slice xs i (i + bsize) = take (nat bsize) (drop (nat i) xs)"
proof (cases "i < len xs")
  case True
  then have "nat (min (i + bsize) (len xs) - i) = min (nat bsize) (length xs - nat i)"
    using assms by (auto simp: len_def min_def)
  then show ?thesis
    using True assms by (simp add: slice_def Let_def len_def min_def)
next
  case False
  then show ?thesis
    using assms by (simp add: slice_def Let_def len_def min_def)
qed

lemma concat_steps:
  "concat (map (\<lambda>k. take b (drop (k * b) xs)) [0..<j]) = take (j * b) xs"
proof (induction j)
  case 0
  show ?case by simp
next
  case (Suc j)
  have "take (j * b) xs @ take b (drop (j * b) xs) = take (j * b + b) xs"
    by (simp add: take_add)
  with Suc show ?case by (simp add: add.commute)
qed

lemma range3_pos:
  "0 < bsize \<Longrightarrow> range3 0 (len xs) bsize
     = Inr (map (\<lambda>k. int k * bsize) [0..<nat ((len xs + bsize - 1) div bsize)])"
  by (simp add: range3_def Let_def)

lemma range3_neg:
  assumes "bsize < 0"
  shows "range3 0 (len xs) bsize = Inr []"
proof -
  let ?x = "0 - len xs - bsize - 1"
  have small: "?x < - bsize"
    by (simp add: len_def)
  have "?x div (- bsize) \<le> 0"
  proof (cases "0 \<le> ?x")
    case True
    then show ?thesis
      using small by simp
  next
    case False
    then have "?x div (- bsize) < 0"
      using assms by (simp add: div_neg_pos_less0)
    then show ?thesis by simp
  qed
  then show ?thesis
    using assms by (simp add: range3_def Let_def)
qed

lemma batches_cover:
  assumes "0 < bsize"
  shows "length xs \<le> nat ((len xs + bsize - 1) div bsize) * nat bsize"
proof -
  let ?q = "(len xs + bsize - 1) div bsize"
  have "?q * bsize + (len xs + bsize - 1) mod bsize = len xs + bsize - 1"
    by simp
  moreover have "(len xs + bsize - 1) mod bsize < bsize"
    using assms by simp
  ultimately have "len xs \<le> ?q * bsize"
    by linarith
  moreover have "0 \<le> ?q"
    using assms by (simp add: len_def pos_imp_zdiv_nonneg_iff)
  ultimately have "int (length xs) \<le> int (nat ?q * nat bsize)"
    using assms by (simp add: len_def)
  then show ?thesis by linarith
qed

lemma sub_batches_pos:
  assumes "0 < bsize"
  shows "sub_batches bsize xs
     = map (\<lambda>k. take (nat bsize) (drop (k * nat bsize) xs))
         [0..<nat ((len xs + bsize - 1) div bsize)]"
proof -
  have "slice xs (int k * bsize) (int k * bsize + bsize)
          = take (nat bsize) (drop (k * nat bsize) xs)" for k
    using slice_step [of "int k * bsize" bsize xs] assms
    by (simp add: nat_mult_distrib)
  then show ?thesis
    using assms by (simp add: sub_batches_def range3_pos o_def)
qed

lemma concat_take_sub_batches:
  assumes "0 < bsize"
  shows "\<exists>m. concat (take j (sub_batches bsize xs)) = take m xs"
proof -
  let ?n = "nat ((len xs + bsize - 1) div bsize)"
  have "take j (sub_batches bsize xs)
          = map (\<lambda>k. take (nat bsize) (drop (k * nat bsize) xs)) [0..<min j ?n]"
    using assms by (simp add: sub_batches_pos take_map min_def)
  then show ?thesis
    using concat_steps [of "nat bsize" xs "min j ?n"] by auto
qed

lemma concat_sub_batches:
  assumes "0 < bsize"
  shows "concat (sub_batches bsize xs) = xs"
  using assms batches_cover [OF assms, of xs]
  by (simp add: sub_batches_pos concat_steps)

lemma sub_batches_neg: "bsize < 0 \<Longrightarrow> sub_batches bsize xs = []"
  by (simp add: sub_batches_def range3_neg)

lemma outcomes_Nil: "outcomes e k [] = []"
  by (simp add: outcomes_def)

lemma outcomes_Cons: "outcomes e k (b # bs) = store e k b # outcomes e (Suc k) bs"
  by (simp add: outcomes_def)

lemma length_outcomes: "length (outcomes e k bs) = length bs"
  by (simp add: outcomes_def)

lemma insert_loop_run:
  "\<exists>j\<le>length idxs.
     snd (insert_loop e bsize records idxs c w)
       = w\<lparr>sent := sent w @ map (\<lambda>i. slice records i (i + bsize)) (take j idxs)\<rparr>
     \<and> (let outs = outcomes e (length (sent w))
                     (map (\<lambda>i. slice records i (i + bsize)) (take j idxs))
        in (fst (insert_loop e bsize records idxs c w) = Inl ConnectionFailure
              \<and> Unreachable \<in> set outs)
         \<or> (fst (insert_loop e bsize records idxs c w) = Inr (c + sum_list (map reported outs))
              \<and> Unreachable \<notin> set outs \<and> j = length idxs))"
proof (induction idxs arbitrary: c w)
  case Nil
  show ?case by (simp add: outcomes_Nil)
next
  case (Cons i idxs)
  let ?b = "slice records i (i + bsize)"
  let ?w = "w\<lparr>sent := sent w @ [?b]\<rparr>"
  show ?case
  proof (cases "store e (length (sent w)) ?b")
    case Unreachable
    then show ?thesis
      by (intro exI [of _ 1]) (simp add: outcomes_Cons outcomes_Nil)
  next
    case (InsertManyResult ids)
    from Cons [of "c + len ids" ?w] obtain j where j: "j \<le> length idxs"
      and "snd (insert_loop e bsize records idxs (c + len ids) ?w)
             = ?w\<lparr>sent := sent ?w @ map (\<lambda>i. slice records i (i + bsize)) (take j idxs)\<rparr>
         \<and> (let outs = outcomes e (length (sent ?w))
                     (map (\<lambda>i. slice records i (i + bsize)) (take j idxs))
            in (fst (insert_loop e bsize records idxs (c + len ids) ?w) = Inl ConnectionFailure
                  \<and> Unreachable \<in> set outs)
             \<or> (fst (insert_loop e bsize records idxs (c + len ids) ?w)
                    = Inr (c + len ids + sum_list (map reported outs))
                  \<and> Unreachable \<notin> set outs \<and> j = length idxs))"
      by blast
    with InsertManyResult show ?thesis
      by (intro exI [of _ "Suc j"]) (auto simp: outcomes_Cons Let_def)
  next
    case (BulkWriteError d)
    let ?n = "dict_get d ''nInserted'' 0"
    from Cons [of "c + ?n" ?w] obtain j where j: "j \<le> length idxs"
      and "snd (insert_loop e bsize records idxs (c + ?n) ?w)
             = ?w\<lparr>sent := sent ?w @ map (\<lambda>i. slice records i (i + bsize)) (take j idxs)\<rparr>
         \<and> (let outs = outcomes e (length (sent ?w))
                     (map (\<lambda>i. slice records i (i + bsize)) (take j idxs))
            in (fst (insert_loop e bsize records idxs (c + ?n) ?w) = Inl ConnectionFailure
                  \<and> Unreachable \<in> set outs)
             \<or> (fst (insert_loop e bsize records idxs (c + ?n) ?w)
                    = Inr (c + ?n + sum_list (map reported outs))
                  \<and> Unreachable \<notin> set outs \<and> j = length idxs))"
      by blast
    with BulkWriteError show ?thesis
      by (intro exI [of _ "Suc j"]) (auto simp: outcomes_Cons Let_def)
  qed
qed

lemma range3_sub_batches:
  assumes "bsize \<noteq> 0"
  shows "\<exists>idxs. range3 0 (len xs) bsize = Inr idxs
           \<and> map (\<lambda>i. slice xs i (i + bsize)) idxs = sub_batches bsize xs"
  using assms by (simp add: sub_batches_def range3_def Let_def)

lemma written_append: "sent w' = sent w @ bl \<Longrightarrow> written w w' = concat bl"
  by (simp add: written_def)

lemma written_same: "sent w' = sent w \<Longrightarrow> written w w' = []"
  by (simp add: written_def)

lemma concat_take_sub_batches_any:
  "\<exists>m. concat (take j (sub_batches bsize xs)) = take m xs"
proof (cases "0 < bsize")
  case True
  then show ?thesis by (rule concat_take_sub_batches)
next
  case False
  then have "sub_batches bsize xs = []"
    by (cases "bsize = 0") (simp_all add: sub_batches_neg, simp add: sub_batches_def range3_def)
  then have "concat (take j (sub_batches bsize xs)) = take 0 xs"
    by simp
  then show ?thesis by blast
qed

lemma take_map_upt: "take m (map f [a..<a + n]) = map f [a..<a + min m n]"
proof (cases "m \<le> n")
  case True
  then show ?thesis by (simp add: take_map min_def)
next
  case False
  then show ?thesis by (simp add: min_def)
qed

lemma sum_list_len_concat: "sum_list (map len bl) = len (concat bl)"
  by (induction bl) (simp_all add: len_def)

lemma three_short:
  assumes "length outs = length bl" "j < length bl"
    and "reported (outs ! j) = len (bl ! j) - 3"
    and "\<forall>k<length bl. k \<noteq> j \<longrightarrow> reported (outs ! k) = len (bl ! k)"
  shows "sum_list (map reported outs) = sum_list (map len bl) - 3"
proof -
  have "sum_list (map reported outs) = (\<Sum>k = 0..<length bl. reported (outs ! k))"
    using assms(1) by (simp add: sum_list_sum_nth)
  also have "\<dots> = (\<Sum>k = 0..<length bl. len (bl ! k) - (if k = j then 3 else 0))"
    using assms(3,4) by (intro sum.cong) auto
  also have "\<dots> = (\<Sum>k = 0..<length bl. len (bl ! k)) - (\<Sum>k = 0..<length bl. if k = j then 3 else 0)"
    by (simp add: sum_subtractf)
  also have "(\<Sum>k = 0..<length bl. if k = j then 3 else 0) = (3::int)"
    using assms(2) by simp
  also have "(\<Sum>k = 0..<length bl. len (bl ! k)) = sum_list (map len bl)"
    by (simp add: sum_list_sum_nth)
  finally show ?thesis .
qed

lemma outcomes_from_store:
  "x \<in> set (outcomes e k bl) \<Longrightarrow> \<exists>j b. store e j b = x"
  by (auto simp: outcomes_def)

lemma write_phase:
  assumes nz: "bsize \<noteq> 0"
    and recs: "records = fst (apply_metadata e mk df w)"
    and sb: "batches = sub_batches bsize records"
  obtains idxs r w2 j where
    "range3 0 (len records) bsize = Inr idxs"
    "insert_loop e bsize records idxs 0 (snd (apply_metadata e mk df w)) = (r, w2)"
    "j \<le> length batches"
    "w2 = w\<lparr>clock_reads := clock_reads w + length df, sent := sent w @ take j batches\<rparr>"
    "r = Inl ConnectionFailure
         \<and> Unreachable \<in> set (outcomes e (length (sent w)) (take j batches))
     \<or> r = Inr (sum_list (map reported (outcomes e (length (sent w)) (take j batches))))
         \<and> Unreachable \<notin> set (outcomes e (length (sent w)) (take j batches))
         \<and> j = length batches"
proof -
  let ?w1 = "snd (apply_metadata e mk df w)"
  from range3_sub_batches [OF nz, of records] obtain idxs
    where idxs: "range3 0 (len records) bsize = Inr idxs"
      and sl: "map (\<lambda>i. slice records i (i + bsize)) idxs = batches"
    using sb by blast
  have w1: "?w1 = w\<lparr>clock_reads := clock_reads w + length df\<rparr>"
    by (rule apply_metadata_world)
  from insert_loop_run [of idxs e bsize records 0 ?w1] obtain j
    where j: "j \<le> length idxs"
      and run: "snd (insert_loop e bsize records idxs 0 ?w1)
         = ?w1\<lparr>sent := sent ?w1 @ take j batches\<rparr>"
        "fst (insert_loop e bsize records idxs 0 ?w1) = Inl ConnectionFailure
              \<and> Unreachable \<in> set (outcomes e (length (sent ?w1)) (take j batches))
         \<or> fst (insert_loop e bsize records idxs 0 ?w1)
              = Inr (0 + sum_list (map reported (outcomes e (length (sent ?w1)) (take j batches))))
              \<and> Unreachable \<notin> set (outcomes e (length (sent ?w1)) (take j batches))
              \<and> j = length idxs"
    unfolding Let_def take_map [symmetric] sl by blast
  have len: "length idxs = length batches"
    using sl by (metis length_map)
  obtain r w2 where il: "insert_loop e bsize records idxs 0 ?w1 = (r, w2)"
    by (cases "insert_loop e bsize records idxs 0 ?w1")
  have r: "fst (insert_loop e bsize records idxs 0 ?w1) = r"
    and w2: "snd (insert_loop e bsize records idxs 0 ?w1) = w2"
    using il by simp_all
  have w2': "w2 = w\<lparr>clock_reads := clock_reads w + length df, sent := sent w @ take j batches\<rparr>"
  proof -
    from run(1) have "w2 = ?w1\<lparr>sent := sent ?w1 @ take j batches\<rparr>"
      unfolding w2 by simp
    then show ?thesis
      unfolding w1 by simp
  qed
  have r': "r = Inl ConnectionFailure
              \<and> Unreachable \<in> set (outcomes e (length (sent w)) (take j batches))
         \<or> r = Inr (sum_list (map reported (outcomes e (length (sent w)) (take j batches))))
              \<and> Unreachable \<notin> set (outcomes e (length (sent w)) (take j batches))
              \<and> j = length batches"
    using run(2) len unfolding r unfolding w1 by simp
  from j len have "j \<le> length batches" by simp
  from that [OF idxs il this w2' r'] show thesis .
qed

lemma load_csv_chunk_read_error:
  "read_csv e filepath (range2 1 (start_row + 1)) (Some (end_row - start_row)) = Inl err \<Longrightarrow>
     load_csv_chunk e self filepath start_row end_row bid w = (Inl err, self, w)"
  by (simp add: load_csv_chunk_def)

lemma load_csv_chunk_unkeyed:
  "read_csv e filepath (range2 1 (start_row + 1)) (Some (end_row - start_row)) = Inr Unkeyed \<Longrightarrow>
     load_csv_chunk e self filepath start_row end_row bid w = (Inl KeyError, self, w)"
  by (simp add: load_csv_chunk_def)

lemma load_csv_chunk_zero_step:
  assumes "read_csv e filepath (range2 1 (start_row + 1)) (Some (end_row - start_row))
             = Inr (Keyed df0)"
    and "batch_size self = 0"
  shows "fst (load_csv_chunk e self filepath start_row end_row bid w) = Inl ValueError
     \<and> fst (snd (load_csv_chunk e self filepath start_row end_row bid w))
         = self\<lparr>cleaner := snd (cleanse (cleaner self) df0)\<rparr>
     \<and> sent (snd (snd (load_csv_chunk e self filepath start_row end_row bid w))) = sent w"
  using assms
  by (simp add: load_csv_chunk_def split_def Let_def range3_def apply_metadata_world)

lemma load_csv_chunk_unfold:
  assumes "read_csv e filepath (range2 1 (start_row + 1)) (Some (end_row - start_row))
             = Inr (Keyed df0)"
    and "apply_metadata e
           (\<lambda>t. \<lparr>ingested_at = t, batch_id = bid,
                 source_rows = Some (str start_row @ ''-'' @ str end_row)\<rparr>)
           (fst (cleanse (cleaner self) df0)) w = (records, w1)"
    and "range3 0 (len records) (batch_size self) = Inr idxs"
    and "insert_loop e (batch_size self) records idxs 0 w1 = (r, w2)"
  shows "load_csv_chunk e self filepath start_row end_row bid w =
     (case r of
        Inl err \<Rightarrow> Inl err
      | Inr inserted_count \<Rightarrow>
          Inr [(''rows_read'', PyInt (end_row - start_row)),
               (''rows_after_cleansing'', PyInt (len (fst (cleanse (cleaner self) df0)))),
               (''rows_inserted'', PyInt inserted_count),
               (''cleansing_stats'', PyStats (stats (snd (cleanse (cleaner self) df0)))),
               (''batch_id'', PyStr bid)],
      self\<lparr>cleaner := snd (cleanse (cleaner self) df0)\<rparr>, w2)"
  using assms
  by (simp add: load_csv_chunk_def split_def Let_def split: sum.splits)

lemma load_csv_chunk_run:
  assumes rd: "read_csv e filepath (range2 1 (start_row + 1)) (Some (end_row - start_row))
                 = Inr (Keyed df0)"
    and nz: "batch_size self \<noteq> 0"
    and df: "df = fst (cleanse (cleaner self) df0)"
    and recs: "records = fst (apply_metadata e
                 (\<lambda>t. \<lparr>ingested_at = t, batch_id = bid,
                       source_rows = Some (str start_row @ ''-'' @ str end_row)\<rparr>) df w)"
    and sb: "batches = sub_batches (batch_size self) records"
  shows "\<exists>j\<le>length batches.
           snd (load_csv_chunk e self filepath start_row end_row bid w)
             = (self\<lparr>cleaner := snd (cleanse (cleaner self) df0)\<rparr>,
                w\<lparr>clock_reads := clock_reads w + length df, sent := sent w @ take j batches\<rparr>)
         \<and> (fst (load_csv_chunk e self filepath start_row end_row bid w) = Inl ConnectionFailure
               \<and> Unreachable \<in> set (outcomes e (length (sent w)) (take j batches))
            \<or> fst (load_csv_chunk e self filepath start_row end_row bid w)
                 = Inr [(''rows_read'', PyInt (end_row - start_row)),
                        (''rows_after_cleansing'', PyInt (len df)),
                        (''rows_inserted'', PyInt (sum_list (map reported
                             (outcomes e (length (sent w)) (take j batches))))),
                        (''cleansing_stats'',
                           PyStats (stats (snd (cleanse (cleaner self) df0)))),
                        (''batch_id'', PyStr bid)]
               \<and> Unreachable \<notin> set (outcomes e (length (sent w)) (take j batches))
               \<and> j = length batches)"
proof -
  let ?mk = "\<lambda>t. \<lparr>ingested_at = t, batch_id = bid,
                    source_rows = Some (str start_row @ ''-'' @ str end_row)\<rparr>"
  from write_phase [OF nz recs sb] obtain idxs r w2 j where
    idxs: "range3 0 (len records) (batch_size self) = Inr idxs"
    and il: "insert_loop e (batch_size self) records idxs 0 (snd (apply_metadata e ?mk df w))
               = (r, w2)"
    and j: "j \<le> length batches"
    and w2: "w2 = w\<lparr>clock_reads := clock_reads w + length df, sent := sent w @ take j batches\<rparr>"
    and r: "r = Inl ConnectionFailure
         \<and> Unreachable \<in> set (outcomes e (length (sent w)) (take j batches))
     \<or> r = Inr (sum_list (map reported (outcomes e (length (sent w)) (take j batches))))
         \<and> Unreachable \<notin> set (outcomes e (length (sent w)) (take j batches))
         \<and> j = length batches"
    by blast
  have am: "apply_metadata e ?mk (fst (cleanse (cleaner self) df0)) w
              = (records, snd (apply_metadata e ?mk df w))"
    unfolding recs df by simp
  have unfold: "load_csv_chunk e self filepath start_row end_row bid w =
     (case r of
        Inl err \<Rightarrow> Inl err
      | Inr inserted_count \<Rightarrow>
          Inr [(''rows_read'', PyInt (end_row - start_row)),
               (''rows_after_cleansing'', PyInt (len df)),
               (''rows_inserted'', PyInt inserted_count),
               (''cleansing_stats'', PyStats (stats (snd (cleanse (cleaner self) df0)))),
               (''batch_id'', PyStr bid)],
      self\<lparr>cleaner := snd (cleanse (cleaner self) df0)\<rparr>, w2)"
    unfolding df by (rule load_csv_chunk_unfold [OF rd am idxs il])
  show ?thesis
  proof (intro exI [of _ j] conjI)
    show "j \<le> length batches" by (rule j)
    show "snd (load_csv_chunk e self filepath start_row end_row bid w)
             = (self\<lparr>cleaner := snd (cleanse (cleaner self) df0)\<rparr>,
                w\<lparr>clock_reads := clock_reads w + length df, sent := sent w @ take j batches\<rparr>)"
      unfolding unfold w2 by simp
    show "fst (load_csv_chunk e self filepath start_row end_row bid w) = Inl ConnectionFailure
               \<and> Unreachable \<in> set (outcomes e (length (sent w)) (take j batches))
            \<or> fst (load_csv_chunk e self filepath start_row end_row bid w)
                 = Inr [(''rows_read'', PyInt (end_row - start_row)),
                        (''rows_after_cleansing'', PyInt (len df)),
                        (''rows_inserted'', PyInt (sum_list (map reported
                             (outcomes e (length (sent w)) (take j batches))))),
                        (''cleansing_stats'',
                           PyStats (stats (snd (cleanse (cleaner self) df0)))),
                        (''batch_id'', PyStr bid)]
               \<and> Unreachable \<notin> set (outcomes e (length (sent w)) (take j batches))
               \<and> j = length batches"
      using r unfolding unfold by auto
  qed
qed

lemma sent_default_batch_id: "sent (snd (default_batch_id e bid w)) = sent w"
  by (simp add: default_batch_id_def now_def split: option.splits)

lemma load_full_csv_read_error:
  "read_csv e filepath [] None = Inl err \<Longrightarrow>
     load_full_csv e self filepath bid0 w0
       = (Inl err, self, snd (default_batch_id e bid0 w0))"
  by (simp add: load_full_csv_def split_def)

lemma load_full_csv_unkeyed:
  "read_csv e filepath [] None = Inr Unkeyed \<Longrightarrow>
     load_full_csv e self filepath bid0 w0
       = (Inl KeyError, self, snd (default_batch_id e bid0 w0))"
  by (simp add: load_full_csv_def split_def)

lemma load_full_csv_zero_step:
  assumes "read_csv e filepath [] None = Inr (Keyed df0)"
    and "batch_size self = 0"
  shows "fst (load_full_csv e self filepath bid0 w0) = Inl ValueError
     \<and> fst (snd (load_full_csv e self filepath bid0 w0))
         = self\<lparr>cleaner := snd (cleanse (cleaner self) df0)\<rparr>
     \<and> sent (snd (snd (load_full_csv e self filepath bid0 w0))) = sent w0"
  using assms
  by (simp add: load_full_csv_def split_def Let_def range3_def apply_metadata_world
      sent_default_batch_id)

lemma load_full_csv_unfold:
  assumes "default_batch_id e bid0 w0 = (bid, w)"
    and "read_csv e filepath [] None = Inr (Keyed df0)"
    and "apply_metadata e (\<lambda>t. \<lparr>ingested_at = t, batch_id = bid, source_rows = None\<rparr>)
           (fst (cleanse (cleaner self) df0)) w = (records, w1)"
    and "range3 0 (len records) (batch_size self) = Inr idxs"
    and "insert_loop e (batch_size self) records idxs 0 w1 = (r, w2)"
  shows "load_full_csv e self filepath bid0 w0 =
     (case r of
        Inl err \<Rightarrow> Inl err
      | Inr inserted_count \<Rightarrow>
          Inr [(''total_rows_read'', PyInt (len df0)),
               (''rows_after_cleansing'', PyInt (len (fst (cleanse (cleaner self) df0)))),
               (''rows_inserted'', PyInt inserted_count),
               (''cleansing_stats'', PyStats (stats (snd (cleanse (cleaner self) df0)))),
               (''batch_id'', PyStr bid)],
      self\<lparr>cleaner := snd (cleanse (cleaner self) df0)\<rparr>, w2)"
  using assms
  by (simp add: load_full_csv_def split_def Let_def split: sum.splits)

lemma load_full_csv_run:
  assumes db: "default_batch_id e bid0 w0 = (bid, w)"
    and rd: "read_csv e filepath [] None = Inr (Keyed df0)"
    and nz: "batch_size self \<noteq> 0"
    and df: "df = fst (cleanse (cleaner self) df0)"
    and recs: "records = fst (apply_metadata e
                 (\<lambda>t. \<lparr>ingested_at = t, batch_id = bid, source_rows = None\<rparr>) df w)"
    and sb: "batches = sub_batches (batch_size self) records"
  shows "\<exists>j\<le>length batches.
           snd (load_full_csv e self filepath bid0 w0)
             = (self\<lparr>cleaner := snd (cleanse (cleaner self) df0)\<rparr>,
                w\<lparr>clock_reads := clock_reads w + length df, sent := sent w @ take j batches\<rparr>)
         \<and> (fst (load_full_csv e self filepath bid0 w0) = Inl ConnectionFailure
               \<and> Unreachable \<in> set (outcomes e (length (sent w)) (take j batches))
            \<or> fst (load_full_csv e self filepath bid0 w0)
                 = Inr [(''total_rows_read'', PyInt (len df0)),
                        (''rows_after_cleansing'', PyInt (len df)),
                        (''rows_inserted'', PyInt (sum_list (map reported
                             (outcomes e (length (sent w)) (take j batches))))),
                        (''cleansing_stats'',
                           PyStats (stats (snd (cleanse (cleaner self) df0)))),
                        (''batch_id'', PyStr bid)]
               \<and> Unreachable \<notin> set (outcomes e (length (sent w)) (take j batches))
               \<and> j = length batches)"
proof -
  let ?mk = "\<lambda>t. \<lparr>ingested_at = t, batch_id = bid, source_rows = None\<rparr>"
  from write_phase [OF nz recs sb] obtain idxs r w2 j where
    idxs: "range3 0 (len records) (batch_size self) = Inr idxs"
    and il: "insert_loop e (batch_size self) records idxs 0 (snd (apply_metadata e ?mk df w))
               = (r, w2)"
    and j: "j \<le> length batches"
    and w2: "w2 = w\<lparr>clock_reads := clock_reads w + length df, sent := sent w @ take j batches\<rparr>"
    and r: "r = Inl ConnectionFailure
         \<and> Unreachable \<in> set (outcomes e (length (sent w)) (take j batches))
     \<or> r = Inr (sum_list (map reported (outcomes e (length (sent w)) (take j batches))))
         \<and> Unreachable \<notin> set (outcomes e (length (sent w)) (take j batches))
         \<and> j = length batches"
    by blast
  have am: "apply_metadata e ?mk (fst (cleanse (cleaner self) df0)) w
              = (records, snd (apply_metadata e ?mk df w))"
    unfolding recs df by simp
  have unfold: "load_full_csv e self filepath bid0 w0 =
     (case r of
        Inl err \<Rightarrow> Inl err
      | Inr inserted_count \<Rightarrow>
          Inr [(''total_rows_read'', PyInt (len df0)),
               (''rows_after_cleansing'', PyInt (len df)),
               (''rows_inserted'', PyInt inserted_count),
               (''cleansing_stats'', PyStats (stats (snd (cleanse (cleaner self) df0)))),
               (''batch_id'', PyStr bid)],
      self\<lparr>cleaner := snd (cleanse (cleaner self) df0)\<rparr>, w2)"
    unfolding df by (rule load_full_csv_unfold [OF db rd am idxs il])
  show ?thesis
  proof (intro exI [of _ j] conjI)
    show "j \<le> length batches" by (rule j)
    show "snd (load_full_csv e self filepath bid0 w0)
             = (self\<lparr>cleaner := snd (cleanse (cleaner self) df0)\<rparr>,
                w\<lparr>clock_reads := clock_reads w + length df, sent := sent w @ take j batches\<rparr>)"
      unfolding unfold w2 by simp
    show "fst (load_full_csv e self filepath bid0 w0) = Inl ConnectionFailure
               \<and> Unreachable \<in> set (outcomes e (length (sent w)) (take j batches))
            \<or> fst (load_full_csv e self filepath bid0 w0)
                 = Inr [(''total_rows_read'', PyInt (len df0)),
                        (''rows_after_cleansing'', PyInt (len df)),
                        (''rows_inserted'', PyInt (sum_list (map reported
                             (outcomes e (length (sent w)) (take j batches))))),
                        (''cleansing_stats'',
                           PyStats (stats (snd (cleanse (cleaner self) df0)))),
                        (''batch_id'', PyStr bid)]
               \<and> Unreachable \<notin> set (outcomes e (length (sent w)) (take j batches))
               \<and> j = length batches"
      using r unfolding unfold by auto
  qed
qed

text \<open>
  The ways in which a load call of either kind ends, and what it leaves behind.
\<close>

lemma run_call_cases [consumes 1, case_names read_error unkeyed zero_step run]:
  assumes "run_call e self c w = (res, self', w')"
  obtains
    err where "call_frame e c = Inl err" "res = Inl err" "self' = self" "sent w' = sent w"
  | "call_frame e c = Inr Unkeyed" "res = Inl KeyError" "self' = self" "sent w' = sent w"
  | df0 where "call_frame e c = Inr (Keyed df0)" "batch_size self = 0" "res = Inl ValueError"
      "self' = self\<lparr>cleaner := snd (cleanse (cleaner self) df0)\<rparr>" "sent w' = sent w"
  | df0 records batches j where "call_frame e c = Inr (Keyed df0)" "batch_size self \<noteq> 0"
      "self' = self\<lparr>cleaner := snd (cleanse (cleaner self) df0)\<rparr>"
      "map row_of records = fst (cleanse (cleaner self) df0)"
      "batches = sub_batches (batch_size self) records"
      "j \<le> length batches"
      "sent w' = sent w @ take j batches"
      "res = Inl ConnectionFailure
           \<and> Unreachable \<in> set (outcomes e (length (sent w)) (take j batches))
       \<or> (\<exists>st. res = Inr st
             \<and> map_of st ''rows_after_cleansing''
                 = Some (PyInt (len (fst (cleanse (cleaner self) df0))))
             \<and> map_of st ''rows_inserted''
                 = Some (PyInt (sum_list (map reported
                      (outcomes e (length (sent w)) (take j batches))))))
           \<and> Unreachable \<notin> set (outcomes e (length (sent w)) (take j batches))
           \<and> j = length batches"
proof (cases c)
  case (LoadChunk filepath start_row end_row bid)
  let ?call = "load_csv_chunk e self filepath start_row end_row bid w"
  have call: "?call = (res, self', w')"
    using assms LoadChunk by simp
  then have res: "res = fst ?call" and rest: "(self', w') = snd ?call"
    by simp_all
  show thesis
  proof (cases "call_frame e c")
    case (Inl err)
    then have rd: "read_csv e filepath (range2 1 (start_row + 1)) (Some (end_row - start_row))
                     = Inl err"
      using LoadChunk by simp
    from call load_csv_chunk_read_error [OF rd, of self bid w] that(1) [OF Inl]
    show thesis by simp
  next
    case (Inr fr)
    show thesis
    proof (cases fr)
      case Unkeyed
      then have fr: "call_frame e c = Inr Unkeyed"
        using Inr by simp
      then have rd: "read_csv e filepath (range2 1 (start_row + 1)) (Some (end_row - start_row))
                       = Inr Unkeyed"
        using LoadChunk by simp
      from call load_csv_chunk_unkeyed [OF rd, of self bid w] that(2) [OF fr]
      show thesis by simp
    next
      case (Keyed df0)
      then have fr: "call_frame e c = Inr (Keyed df0)"
        using Inr by simp
      then have rd: "read_csv e filepath (range2 1 (start_row + 1)) (Some (end_row - start_row))
                       = Inr (Keyed df0)"
        using LoadChunk by simp
      show thesis
      proof (cases "batch_size self = 0")
        case True
        from load_csv_chunk_zero_step [OF rd True, of bid w] call that(3) [OF fr True]
        show thesis by simp
      next
        case nz: False
        let ?df = "fst (cleanse (cleaner self) df0)"
        let ?recs = "fst (apply_metadata e
                 (\<lambda>t. \<lparr>ingested_at = t, batch_id = bid,
                       source_rows = Some (str start_row @ ''-'' @ str end_row)\<rparr>) ?df w)"
        let ?bs = "sub_batches (batch_size self) ?recs"
        from load_csv_chunk_run [OF rd nz refl refl refl, of bid w]
        obtain j where j: "j \<le> length ?bs"
          and s: "snd ?call = (self\<lparr>cleaner := snd (cleanse (cleaner self) df0)\<rparr>,
                w\<lparr>clock_reads := clock_reads w + length ?df, sent := sent w @ take j ?bs\<rparr>)"
          and r: "fst ?call = Inl ConnectionFailure
               \<and> Unreachable \<in> set (outcomes e (length (sent w)) (take j ?bs))
            \<or> fst ?call
                 = Inr [(''rows_read'', PyInt (end_row - start_row)),
                        (''rows_after_cleansing'', PyInt (len ?df)),
                        (''rows_inserted'', PyInt (sum_list (map reported
                             (outcomes e (length (sent w)) (take j ?bs))))),
                        (''cleansing_stats'',
                           PyStats (stats (snd (cleanse (cleaner self) df0)))),
                        (''batch_id'', PyStr bid)]
               \<and> Unreachable \<notin> set (outcomes e (length (sent w)) (take j ?bs))
               \<and> j = length ?bs"
          by blast
        have self': "self' = self\<lparr>cleaner := snd (cleanse (cleaner self) df0)\<rparr>"
          and sent: "sent w' = sent w @ take j ?bs"
          using s rest by simp_all
        have r': "res = Inl ConnectionFailure
           \<and> Unreachable \<in> set (outcomes e (length (sent w)) (take j ?bs))
          \<or> (\<exists>st. res = Inr st
             \<and> map_of st ''rows_after_cleansing'' = Some (PyInt (len ?df))
             \<and> map_of st ''rows_inserted''
                 = Some (PyInt (sum_list (map reported
                      (outcomes e (length (sent w)) (take j ?bs))))))
           \<and> Unreachable \<notin> set (outcomes e (length (sent w)) (take j ?bs))
           \<and> j = length ?bs"
          using r unfolding res by auto
        show thesis
          by (rule that(4) [OF fr nz self' row_of_apply_metadata refl j sent r'])
      qed
    qed
  qed
next
  case (LoadFull filepath bid0)
  let ?call = "load_full_csv e self filepath bid0 w"
  have call: "?call = (res, self', w')"
    using assms LoadFull by simp
  then have res: "res = fst ?call" and rest: "(self', w') = snd ?call"
    by simp_all
  obtain bid w1 where db: "default_batch_id e bid0 w = (bid, w1)"
    by (cases "default_batch_id e bid0 w")
  have sent1: "sent w1 = sent w"
    using sent_default_batch_id [of e bid0 w] db by simp
  show thesis
  proof (cases "call_frame e c")
    case (Inl err)
    then have rd: "read_csv e filepath [] None = Inl err"
      using LoadFull by simp
    have eq: "(res, self', w') = (Inl err, self, snd (default_batch_id e bid0 w))"
      using call load_full_csv_read_error [OF rd, of self bid0 w] by simp
    then have "w' = snd (default_batch_id e bid0 w)" by simp
    then have "sent w' = sent w" by (simp only: sent_default_batch_id)
    moreover from eq have "res = Inl err" "self' = self" by simp_all
    ultimately show thesis using that(1) [OF Inl] by blast
  next
    case (Inr fr)
    show thesis
    proof (cases fr)
      case Unkeyed
      then have fr: "call_frame e c = Inr Unkeyed"
        using Inr by simp
      then have rd: "read_csv e filepath [] None = Inr Unkeyed"
        using LoadFull by simp
      have eq: "(res, self', w') = (Inl KeyError, self, snd (default_batch_id e bid0 w))"
        using call load_full_csv_unkeyed [OF rd, of self bid0 w] by simp
      then have "w' = snd (default_batch_id e bid0 w)" by simp
      then have "sent w' = sent w" by (simp only: sent_default_batch_id)
      moreover from eq have "res = Inl KeyError" "self' = self" by simp_all
      ultimately show thesis using that(2) [OF fr] by blast
    next
      case (Keyed df0)
      then have fr: "call_frame e c = Inr (Keyed df0)"
        using Inr by simp
      then have rd: "read_csv e filepath [] None = Inr (Keyed df0)"
        using LoadFull by simp
      show thesis
      proof (cases "batch_size self = 0")
        case True
        from load_full_csv_zero_step [OF rd True, of bid0 w] call that(3) [OF fr True]
        show thesis by simp
      next
        case nz: False
        let ?df = "fst (cleanse (cleaner self) df0)"
        let ?recs = "fst (apply_metadata e
                 (\<lambda>t. \<lparr>ingested_at = t, batch_id = bid, source_rows = None\<rparr>) ?df w1)"
        let ?bs = "sub_batches (batch_size self) ?recs"
        from load_full_csv_run [OF db rd nz refl refl refl]
        obtain j where j: "j \<le> length ?bs"
          and s: "snd ?call = (self\<lparr>cleaner := snd (cleanse (cleaner self) df0)\<rparr>,
                w1\<lparr>clock_reads := clock_reads w1 + length ?df, sent := sent w1 @ take j ?bs\<rparr>)"
          and r: "fst ?call = Inl ConnectionFailure
               \<and> Unreachable \<in> set (outcomes e (length (sent w1)) (take j ?bs))
            \<or> fst ?call
                 = Inr [(''total_rows_read'', PyInt (len df0)),
                        (''rows_after_cleansing'', PyInt (len ?df)),
                        (''rows_inserted'', PyInt (sum_list (map reported
                             (outcomes e (length (sent w1)) (take j ?bs))))),
                        (''cleansing_stats'',
                           PyStats (stats (snd (cleanse (cleaner self) df0)))),
                        (''batch_id'', PyStr bid)]
               \<and> Unreachable \<notin> set (outcomes e (length (sent w1)) (take j ?bs))
               \<and> j = length ?bs"
          by blast
        have self': "self' = self\<lparr>cleaner := snd (cleanse (cleaner self) df0)\<rparr>"
          and sent: "sent w' = sent w @ take j ?bs"
          using s rest sent1 by simp_all
        have r': "res = Inl ConnectionFailure
           \<and> Unreachable \<in> set (outcomes e (length (sent w)) (take j ?bs))
          \<or> (\<exists>st. res = Inr st
             \<and> map_of st ''rows_after_cleansing'' = Some (PyInt (len ?df))
             \<and> map_of st ''rows_inserted''
                 = Some (PyInt (sum_list (map reported
                      (outcomes e (length (sent w)) (take j ?bs))))))
           \<and> Unreachable \<notin> set (outcomes e (length (sent w)) (take j ?bs))
           \<and> j = length ?bs"
          using r unfolding res sent1 by auto
        show thesis
          by (rule that(4) [OF fr nz self' row_of_apply_metadata refl j sent r'])
      qed
    qed
  qed
qed

section \<open>Provenance of the written documents\<close>

lemma load_csv_chunk_written:
  assumes "load_csv_chunk e self filepath start_row end_row bid w = (res, self', w')"
  shows "\<exists>n. map metadata (written w w')
           = map (\<lambda>k. \<lparr>ingested_at = clock e k, batch_id = bid,
                        source_rows = Some (str start_row @ ''-'' @ str end_row)\<rparr>)
               [clock_reads w..<clock_reads w + n]"
proof -
  let ?mk = "\<lambda>t. \<lparr>ingested_at = t, batch_id = bid,
                    source_rows = Some (str start_row @ ''-'' @ str end_row)\<rparr>"
  let ?rd = "read_csv e filepath (range2 1 (start_row + 1)) (Some (end_row - start_row))"
  have w': "w' = snd (snd (load_csv_chunk e self filepath start_row end_row bid w))"
    using assms by simp
  have empty: "written w w' = [] \<Longrightarrow> ?thesis"
    by (intro exI [of _ 0]) simp
  show ?thesis
  proof (cases ?rd)
    case (Inl err)
    then have "written w w' = []"
      using assms by (simp add: load_csv_chunk_read_error written_same)
    then show ?thesis by (rule empty)
  next
    case (Inr fr)
    show ?thesis
    proof (cases fr)
      case Unkeyed
      then have "written w w' = []"
        using Inr assms by (simp add: load_csv_chunk_unkeyed written_same)
      then show ?thesis by (rule empty)
    next
      case (Keyed df0)
      then have rd: "?rd = Inr (Keyed df0)"
        using Inr by simp
      show ?thesis
      proof (cases "batch_size self = 0")
        case True
        then have "written w w' = []"
          using load_csv_chunk_zero_step [OF rd True, where bid = bid and w = w] w'
          by (simp add: written_same)
        then show ?thesis by (rule empty)
      next
        case nz: False
        let ?df = "fst (cleanse (cleaner self) df0)"
        let ?recs = "fst (apply_metadata e ?mk ?df w)"
        from load_csv_chunk_run [OF rd nz refl refl refl, where bid = bid and w = w]
        obtain j where "snd (load_csv_chunk e self filepath start_row end_row bid w)
             = (self\<lparr>cleaner := snd (cleanse (cleaner self) df0)\<rparr>,
                w\<lparr>clock_reads := clock_reads w + length ?df,
                  sent := sent w @ take j (sub_batches (batch_size self) ?recs)\<rparr>)"
          by blast
        then have "sent w' = sent w @ take j (sub_batches (batch_size self) ?recs)"
          unfolding w' by simp
        then have "written w w' = concat (take j (sub_batches (batch_size self) ?recs))"
          by (rule written_append)
        then obtain m where m: "written w w' = take m ?recs"
          using concat_take_sub_batches_any [of j "batch_size self" ?recs] by auto
        have "map metadata (written w w')
                = take m (map (\<lambda>k. ?mk (clock e k)) [clock_reads w..<clock_reads w + length ?df])"
          unfolding m by (simp only: take_map [symmetric] metadata_apply_metadata)
        also have "\<dots> = map (\<lambda>k. ?mk (clock e k))
                           [clock_reads w..<clock_reads w + min m (length ?df)]"
          by (rule take_map_upt)
        finally show ?thesis by blast
      qed
    qed
  qed
qed

lemma sample_chunk:
  "load_csv_chunk sensor_env (BatchLoader_init 1000) ''sensors.csv'' 0 3 ''b1'' fresh_world =
     (Inr [(''rows_read'', PyInt 3), (''rows_after_cleansing'', PyInt 2),
           (''rows_inserted'', PyInt 2),
           (''cleansing_stats'', PyStats \<lparr>duplicates_removed = 1, missing_values_dropped = 0\<rparr>),
           (''batch_id'', PyStr ''b1'')],
      \<lparr>batch_size = 1000,
        cleaner = \<lparr>stats = \<lparr>duplicates_removed = 1, missing_values_dropped = 0\<rparr>\<rparr>\<rparr>,
      \<lparr>clock_reads = 2,
        sent = [[\<lparr>ts = Num 1, device = Str ''A'', other = [],
                  metadata = \<lparr>ingested_at = clock sensor_env 0, batch_id = ''b1'',
                               source_rows = Some ''0-3''\<rparr>\<rparr>,
                \<lparr>ts = Num 2, device = Str ''A'', other = [],
                  metadata = \<lparr>ingested_at = clock sensor_env 1, batch_id = ''b1'',
                               source_rows = Some ''0-3''\<rparr>\<rparr>]]\<rparr>)"
  by code_simp

lemma sample_written:
  "written fresh_world (snd (snd
      (load_csv_chunk sensor_env (BatchLoader_init 1000) ''sensors.csv'' 0 3 ''b1'' fresh_world)))
   = [\<lparr>ts = Num 1, device = Str ''A'', other = [],
        metadata = \<lparr>ingested_at = clock sensor_env 0, batch_id = ''b1'',
                     source_rows = Some ''0-3''\<rparr>\<rparr>,
      \<lparr>ts = Num 2, device = Str ''A'', other = [],
        metadata = \<lparr>ingested_at = clock sensor_env 1, batch_id = ''b1'',
                     source_rows = Some ''0-3''\<rparr>\<rparr>]"
  by code_simp

text \<open>
  C1, as the code has it. Every document that one call of \<open>load_csv_chunk\<close> passes to the
  store carries the call's \<open>batch_id\<close> and the same \<open>source_rows\<close>, the string
  \<open>"{start_row}-{end_row}"\<close>. Its \<open>ingested_at\<close> is a reading of the clock of its own: the
  documents carry, in order, the successive readings that the clock gives from the start
  of the call, one per record, all taken before the first write.
\<close>

theorem provenance_of_written_documents:
  assumes "load_csv_chunk e self filepath start_row end_row bid w = (res, self', w')"
  shows "(\<forall>d \<in> set (written w w').
            batch_id (metadata d) = bid
            \<and> source_rows (metadata d) = Some (str start_row @ ''-'' @ str end_row))
       \<and> map (\<lambda>d. ingested_at (metadata d)) (written w w')
           = map (clock e) [clock_reads w..<clock_reads w + length (written w w')]"
proof -
  from load_csv_chunk_written [OF assms] obtain n
    where n: "map metadata (written w w')
           = map (\<lambda>k. \<lparr>ingested_at = clock e k, batch_id = bid,
                        source_rows = Some (str start_row @ ''-'' @ str end_row)\<rparr>)
               [clock_reads w..<clock_reads w + n]"
    by blast
  then have "length (map metadata (written w w')) = n"
    by simp
  then have len: "length (written w w') = n"
    by simp
  have "\<forall>m \<in> set (map metadata (written w w')).
          batch_id m = bid \<and> source_rows m = Some (str start_row @ ''-'' @ str end_row)"
    unfolding n by auto
  then have first: "\<forall>d \<in> set (written w w').
            batch_id (metadata d) = bid
            \<and> source_rows (metadata d) = Some (str start_row @ ''-'' @ str end_row)"
    by simp
  have "map ingested_at (map metadata (written w w'))
          = map (clock e) [clock_reads w..<clock_reads w + n]"
    unfolding n by (simp add: o_def)
  then have "map (\<lambda>d. ingested_at (metadata d)) (written w w')
          = map (clock e) [clock_reads w..<clock_reads w + length (written w w')]"
    using len by (simp add: o_def)
  with first show ?thesis by blast
qed

theorem provenance_of_written_documents_witness:
  "list_all (\<lambda>d. batch_id (metadata d) = ''b1'' \<and> source_rows (metadata d) = Some ''0-3'')
     (written fresh_world (snd (snd
        (load_csv_chunk sensor_env (BatchLoader_init 1000) ''sensors.csv'' 0 3 ''b1'' fresh_world))))
   \<and> map (\<lambda>d. ingested_at (metadata d))
       (written fresh_world (snd (snd
          (load_csv_chunk sensor_env (BatchLoader_init 1000) ''sensors.csv'' 0 3 ''b1'' fresh_world))))
     = [clock sensor_env 0, clock sensor_env 1]"
proof -
  let ?call = "load_csv_chunk sensor_env (BatchLoader_init 1000) ''sensors.csv'' 0 3 ''b1'' fresh_world"
  have call: "?call = (fst ?call, fst (snd ?call), snd (snd ?call))"
    by simp
  from provenance_of_written_documents [OF call]
  have "map (\<lambda>d. ingested_at (metadata d)) (written fresh_world (snd (snd ?call)))
          = map (clock sensor_env)
              [clock_reads fresh_world..<
               clock_reads fresh_world + length (written fresh_world (snd (snd ?call)))]"
    by blast
  then show ?thesis
    unfolding sample_written by (simp add: fresh_world_def)
qed

text \<open>
  C1 as stated fails: with a clock that advances between two readings, the two documents
  written by one call on rows 0 to 3 of the sample file differ in \<open>ingested_at\<close>.
\<close>

theorem ingested_at_differs_within_a_call:
  "ingested_at (metadata (written fresh_world (snd (snd
      (load_csv_chunk sensor_env (BatchLoader_init 1000) ''sensors.csv'' 0 3 ''b1'' fresh_world))) ! 0))
   \<noteq> ingested_at (metadata (written fresh_world (snd (snd
      (load_csv_chunk sensor_env (BatchLoader_init 1000) ''sensors.csv'' 0 3 ''b1'' fresh_world))) ! 1))"
  unfolding sample_written by (simp add: sensor_env_def)

section \<open>Failures of the store\<close>

text \<open>
  C4, as the code has it, for a call of either load method, \<open>load_csv_chunk\<close> or
  \<open>load_full_csv\<close>. \<open>bl\<close> are the batches that the call passed to \<open>insert_many\<close> and
  \<open>outs\<close> what the store answered. An exception of the read leaves the call as it is; a
  frame without \<open>ts\<close> or \<open>device\<close> ends the call with \<open>KeyError\<close>, and a \<open>batch_size\<close>
  of 0 with \<open>ValueError\<close>; when the store could not be reached for a batch, the store's
  exception leaves the call. In every other case the call returns statistics, whatever
  the number of batches that the store answered with \<open>BulkWriteError\<close>. When the call
  returns, \<open>rows_inserted\<close> is the sum of the counts the store reported, batch by batch;
  and for a positive \<open>batch_size\<close> the batches sent hold every cleansed row, and when
  one batch reports three documents fewer than it holds and every other batch is
  inserted whole, \<open>rows_inserted\<close> is \<open>rows_after_cleansing - 3\<close>.
\<close>

theorem bulk_write_errors_are_counted:
  assumes call: "run_call e self c w = (res, self', w')"
    and bl: "bl = drop (length (sent w)) (sent w')"
    and outs: "outs = outcomes e (length (sent w)) bl"
  shows "(\<forall>err. call_frame e c = Inl err \<longrightarrow> res = Inl err)
       \<and> (call_frame e c = Inr Unkeyed \<longrightarrow> res = Inl KeyError)
       \<and> ((\<exists>df0. call_frame e c = Inr (Keyed df0)) \<and> batch_size self = 0
            \<longrightarrow> res = Inl ValueError)
       \<and> (Unreachable \<in> set outs \<longrightarrow> res = Inl ConnectionFailure)
       \<and> ((\<exists>df0. call_frame e c = Inr (Keyed df0)) \<and> batch_size self \<noteq> 0
              \<and> Unreachable \<notin> set outs
            \<longrightarrow> (\<exists>st. res = Inr st))
       \<and> (\<forall>st. res = Inr st \<longrightarrow>
            map_of st ''rows_inserted'' = Some (PyInt (sum_list (map reported outs)))
            \<and> (0 < batch_size self \<longrightarrow>
                 map_of st ''rows_after_cleansing'' = Some (PyInt (sum_list (map len bl)))
                 \<and> (\<forall>j d. j < length bl \<and> outs ! j = BulkWriteError d
                        \<and> map_of d ''nInserted'' = Some (len (bl ! j) - 3)
                        \<and> (\<forall>k<length bl. k \<noteq> j \<longrightarrow>
                              (\<exists>ids. outs ! k = InsertManyResult ids \<and> len ids = len (bl ! k)))
                      \<longrightarrow> map_of st ''rows_inserted''
                            = Some (PyInt (sum_list (map len bl) - 3)))))"
  using call
proof (cases rule: run_call_cases)
  case (read_error err)
  then have "outs = []"
    using bl outs by (simp add: outcomes_Nil)
  with read_error show ?thesis by simp
next
  case unkeyed
  then have "outs = []"
    using bl outs by (simp add: outcomes_Nil)
  with unkeyed show ?thesis by simp
next
  case (zero_step df0)
  then have "outs = []"
    using bl outs by (simp add: outcomes_Nil)
  with zero_step show ?thesis by simp
next
  case (run df0 records batches j)
  have bl': "bl = take j batches"
    using bl run(7) by simp
  have outs': "outs = outcomes e (length (sent w)) (take j batches)"
    using outs bl' by simp
  from run(8) show ?thesis
  proof
    assume "res = Inl ConnectionFailure
              \<and> Unreachable \<in> set (outcomes e (length (sent w)) (take j batches))"
    with run(1,2) outs' show ?thesis by simp
  next
    assume ok: "(\<exists>st. res = Inr st
             \<and> map_of st ''rows_after_cleansing''
                 = Some (PyInt (len (fst (cleanse (cleaner self) df0))))
             \<and> map_of st ''rows_inserted''
                 = Some (PyInt (sum_list (map reported
                      (outcomes e (length (sent w)) (take j batches))))))
           \<and> Unreachable \<notin> set (outcomes e (length (sent w)) (take j batches))
           \<and> j = length batches"
    then obtain st where st: "res = Inr st"
      and after: "map_of st ''rows_after_cleansing''
                 = Some (PyInt (len (fst (cleanse (cleaner self) df0))))"
      and inserted: "map_of st ''rows_inserted'' = Some (PyInt (sum_list (map reported outs)))"
      unfolding outs' by blast
    from ok have j: "j = length batches"
      by blast
    from ok have reach: "Unreachable \<notin> set outs"
      unfolding outs' by blast
    have all: "bl = batches"
      using bl' j by simp
    have "length records = length (fst (cleanse (cleaner self) df0))"
      using run(4) by (metis length_map)
    then have sum: "sum_list (map len bl) = len (fst (cleanse (cleaner self) df0))"
      if "0 < batch_size self"
      using that all run(5) by (simp add: sum_list_len_concat concat_sub_batches len_def)
    have short: "sum_list (map reported outs) = sum_list (map len bl) - 3"
      if "j' < length bl" "outs ! j' = BulkWriteError d"
        "map_of d ''nInserted'' = Some (len (bl ! j') - 3)"
        "\<forall>k<length bl. k \<noteq> j' \<longrightarrow>
            (\<exists>ids. outs ! k = InsertManyResult ids \<and> len ids = len (bl ! k))"
      for j' d
    proof (rule three_short [of outs bl j'])
      show "length outs = length bl"
        using outs by (simp add: length_outcomes)
      show "j' < length bl" by (rule that(1))
      show "reported (outs ! j') = len (bl ! j') - 3"
        using that(2,3) by (simp add: dict_get_def)
      show "\<forall>k<length bl. k \<noteq> j' \<longrightarrow> reported (outs ! k) = len (bl ! k)"
        using that(4) by auto
    qed
    from st after inserted reach run(1,2) sum short show ?thesis
      by auto
  qed
qed

lemma flaky_chunk_result:
  "fst (run_call flaky_env (BatchLoader_init 5) (LoadChunk ''sensors.csv'' 0 10 ''b1'') fresh_world) =
     Inr [(''rows_read'', PyInt 10), (''rows_after_cleansing'', PyInt 7),
          (''rows_inserted'', PyInt 4),
          (''cleansing_stats'', PyStats \<lparr>duplicates_removed = 2, missing_values_dropped = 1\<rparr>),
          (''batch_id'', PyStr ''b1'')]"
  by code_simp

lemma flaky_full_result:
  "fst (run_call flaky_env (BatchLoader_init 5) (LoadFull ''sensors.csv'' (Some ''b2'')) fresh_world) =
     Inr [(''total_rows_read'', PyInt 10), (''rows_after_cleansing'', PyInt 7),
          (''rows_inserted'', PyInt 4),
          (''cleansing_stats'', PyStats \<lparr>duplicates_removed = 2, missing_values_dropped = 1\<rparr>),
          (''batch_id'', PyStr ''b2'')]"
  by code_simp

lemma flaky_full_outcomes:
  "outcomes flaky_env 0 (sent (snd (snd
      (run_call flaky_env (BatchLoader_init 5) (LoadFull ''sensors.csv'' (Some ''b2'')) fresh_world))))
     = [BulkWriteError [(''nInserted'', 2), (''nModified'', 0)], InsertManyResult [0, 1]]"
  by code_simp

theorem bulk_write_errors_are_counted_witness:
  "fst (run_call flaky_env (BatchLoader_init 5) (LoadChunk ''sensors.csv'' 0 10 ''b1'') fresh_world) =
     Inr [(''rows_read'', PyInt 10), (''rows_after_cleansing'', PyInt 7),
          (''rows_inserted'', PyInt 4),
          (''cleansing_stats'', PyStats \<lparr>duplicates_removed = 2, missing_values_dropped = 1\<rparr>),
          (''batch_id'', PyStr ''b1'')]
   \<and> fst (run_call flaky_env (BatchLoader_init 5) (LoadFull ''sensors.csv'' (Some ''b2'')) fresh_world) =
     Inr [(''total_rows_read'', PyInt 10), (''rows_after_cleansing'', PyInt 7),
          (''rows_inserted'', PyInt 4),
          (''cleansing_stats'', PyStats \<lparr>duplicates_removed = 2, missing_values_dropped = 1\<rparr>),
          (''batch_id'', PyStr ''b2'')]
   \<and> outcomes flaky_env 0 (sent (snd (snd
      (run_call flaky_env (BatchLoader_init 5) (LoadFull ''sensors.csv'' (Some ''b2'')) fresh_world))))
     = [BulkWriteError [(''nInserted'', 2), (''nModified'', 0)], InsertManyResult [0, 1]]"
proof -
  let ?call = "run_call flaky_env (BatchLoader_init 5) (LoadFull ''sensors.csv'' (Some ''b2''))
                 fresh_world"
  have call: "?call = (fst ?call, fst (snd ?call), snd (snd ?call))"
    by simp
  from bulk_write_errors_are_counted [OF call refl refl]
  have "Unreachable \<in> set (outcomes flaky_env (length (sent fresh_world))
             (drop (length (sent fresh_world)) (sent (snd (snd ?call)))))
        \<longrightarrow> fst ?call = Inl ConnectionFailure"
    by blast
  then show ?thesis
    unfolding flaky_chunk_result flaky_full_result flaky_full_outcomes by simp
qed

text \<open>
  C4 as stated fails: a loader with \<open>batch_size = 0\<close> raises \<open>ValueError\<close> from either load
  method, on a file that can be read and with a store that can be reached.
\<close>

theorem zero_batch_size_raises:
  "fst (load_csv_chunk sensor_env (BatchLoader_init 0) ''sensors.csv'' 0 10 ''b1'' fresh_world)
     = Inl ValueError
   \<and> fst (load_full_csv sensor_env (BatchLoader_init 0) ''sensors.csv'' (Some ''b1'') fresh_world)
     = Inl ValueError"
  by code_simp

section \<open>The rows of a range\<close>





section \<open>One cleaner for all calls of a loader\<close>

lemma load_csv_chunk_cleaner:
  "fst (snd (load_csv_chunk e self filepath start_row end_row bid w)) =
     (case call_frame e (LoadChunk filepath start_row end_row bid) of
        Inl err \<Rightarrow> self
      | Inr Unkeyed \<Rightarrow> self
      | Inr (Keyed df0) \<Rightarrow> self\<lparr>cleaner := snd (cleanse (cleaner self) df0)\<rparr>)"
  by (simp add: load_csv_chunk_def split_def Let_def split: sum.splits frame.splits)

lemma load_csv_chunk_snapshot:
  "fst (load_csv_chunk e self filepath start_row end_row bid w) = Inr st \<Longrightarrow>
     map_of st ''cleansing_stats''
       = Some (PyStats (stats (cleaner (fst (snd (load_csv_chunk e self filepath start_row end_row bid w))))))"
  by (auto simp: load_csv_chunk_def split_def Let_def split: sum.splits frame.splits)

lemma load_full_csv_cleaner:
  "fst (snd (load_full_csv e self filepath bid w)) =
     (case call_frame e (LoadFull filepath bid) of
        Inl err \<Rightarrow> self
      | Inr Unkeyed \<Rightarrow> self
      | Inr (Keyed df0) \<Rightarrow> self\<lparr>cleaner := snd (cleanse (cleaner self) df0)\<rparr>)"
  by (simp add: load_full_csv_def split_def Let_def split: sum.splits frame.splits)

lemma load_full_csv_snapshot:
  "fst (load_full_csv e self filepath bid w) = Inr st \<Longrightarrow>
     map_of st ''cleansing_stats''
       = Some (PyStats (stats (cleaner (fst (snd (load_full_csv e self filepath bid w))))))"
  by (auto simp: load_full_csv_def split_def Let_def split: sum.splits frame.splits)

lemma run_call_stats:
  "stats (cleaner (fst (snd (run_call e self c w)))) =
     \<lparr>duplicates_removed = duplicates_removed (stats (cleaner self)) + call_duplicates e c,
      missing_values_dropped = missing_values_dropped (stats (cleaner self)) + call_missing e c\<rparr>"
proof (cases c)
  case (LoadChunk filepath start_row end_row bid)
  then show ?thesis
    by (simp add: load_csv_chunk_cleaner call_duplicates_def call_missing_def stats_cleanse
        duplicates_in_def missing_in_def split: sum.splits frame.splits)
next
  case (LoadFull filepath bid)
  then show ?thesis
    by (simp add: load_full_csv_cleaner call_duplicates_def call_missing_def stats_cleanse
        duplicates_in_def missing_in_def split: sum.splits frame.splits)
qed

lemma run_call_snapshot:
  "fst (run_call e self c w) = Inr st \<Longrightarrow>
     map_of st ''cleansing_stats''
       = Some (PyStats (stats (cleaner (fst (snd (run_call e self c w))))))"
  by (cases c) (simp_all add: load_csv_chunk_snapshot load_full_csv_snapshot)

lemma run_calls_snapshot:
  assumes "run_calls e self cs w = (results, self', w')" "N < length cs" "results ! N = Inr st"
  shows "map_of st ''cleansing_stats'' = Some (PyStats
           \<lparr>duplicates_removed = duplicates_removed (stats (cleaner self))
               + sum_list (map (call_duplicates e) (take (Suc N) cs)),
            missing_values_dropped = missing_values_dropped (stats (cleaner self))
               + sum_list (map (call_missing e) (take (Suc N) cs))\<rparr>)"
  using assms
proof (induction cs arbitrary: self w results N self' w')
  case Nil
  then show ?case by simp
next
  case (Cons c cs)
  let ?r = "run_call e self c w"
  let ?self1 = "fst (snd ?r)"
  let ?w1 = "snd (snd ?r)"
  obtain ress self2 w2 where rest: "run_calls e ?self1 cs ?w1 = (ress, self2, w2)"
    by (cases "run_calls e ?self1 cs ?w1") auto
  have results: "results = fst ?r # ress"
    using Cons.prems(1) rest by (simp add: split_def)
  show ?case
  proof (cases N)
    case 0
    then have "fst ?r = Inr st"
      using Cons.prems(3) results by simp
    from run_call_snapshot [OF this] show ?thesis
      using 0 by (simp add: run_call_stats)
  next
    case (Suc n)
    then have "n < length cs" "ress ! n = Inr st"
      using Cons.prems(2,3) results by simp_all
    from Cons.IH [OF rest this] show ?thesis
      using Suc by (simp add: run_call_stats add.assoc)
  qed
qed

text \<open>
  C9. A loader holds the one cleaner that \<open>__init__\<close> made, and every load call counts
  into it. So the \<open>cleansing_stats\<close> that the call number \<open>N + 1\<close> on a new loader returns
  are the sums, over the calls up to and including it, of the rows that each call dropped
  as duplicates and as incomplete; only for the first call are they that call's own.
\<close>

theorem cleansing_stats_accumulate_over_calls:
  assumes "run_calls e (BatchLoader_init bsize) cs w = (results, self', w')"
    and "N < length cs" and "results ! N = Inr st"
  shows "map_of st ''cleansing_stats'' = Some (PyStats
           \<lparr>duplicates_removed = sum_list (map (call_duplicates e) (take (Suc N) cs)),
            missing_values_dropped = sum_list (map (call_missing e) (take (Suc N) cs))\<rparr>)"
  using run_calls_snapshot [OF assms]
  by (simp add: BatchLoader_init_def DataCleaner_init_def)

lemma sample_two_calls:
  "fst (run_calls sensor_env (BatchLoader_init 1000)
          [LoadFull ''sensors.csv'' (Some ''b1''), LoadFull ''sensors.csv'' (Some ''b2'')]
          fresh_world) =
     [Inr [(''total_rows_read'', PyInt 10), (''rows_after_cleansing'', PyInt 7),
           (''rows_inserted'', PyInt 7),
           (''cleansing_stats'', PyStats \<lparr>duplicates_removed = 2, missing_values_dropped = 1\<rparr>),
           (''batch_id'', PyStr ''b1'')],
      Inr [(''total_rows_read'', PyInt 10), (''rows_after_cleansing'', PyInt 7),
           (''rows_inserted'', PyInt 7),
           (''cleansing_stats'', PyStats \<lparr>duplicates_removed = 4, missing_values_dropped = 2\<rparr>),
           (''batch_id'', PyStr ''b2'')]]"
  by code_simp

theorem cleansing_stats_accumulate_over_calls_witness:
  "map (\<lambda>r. case r of Inl err \<Rightarrow> None | Inr st \<Rightarrow> map_of st ''cleansing_stats'')
     (fst (run_calls sensor_env (BatchLoader_init 1000)
          [LoadFull ''sensors.csv'' (Some ''b1''), LoadFull ''sensors.csv'' (Some ''b2'')]
          fresh_world))
   = [Some (PyStats \<lparr>duplicates_removed = 2, missing_values_dropped = 1\<rparr>),
      Some (PyStats \<lparr>duplicates_removed = 4, missing_values_dropped = 2\<rparr>)]"
proof -
  let ?cs = "[LoadFull ''sensors.csv'' (Some ''b1''), LoadFull ''sensors.csv'' (Some ''b2'')]"
  let ?run = "run_calls sensor_env (BatchLoader_init 1000) ?cs fresh_world"
  have run: "?run = (fst ?run, fst (snd ?run), snd (snd ?run))"
    by simp
  have second: "fst ?run ! 1 = Inr [(''total_rows_read'', PyInt 10), (''rows_after_cleansing'', PyInt 7),
           (''rows_inserted'', PyInt 7),
           (''cleansing_stats'', PyStats \<lparr>duplicates_removed = 4, missing_values_dropped = 2\<rparr>),
           (''batch_id'', PyStr ''b2'')]"
    unfolding sample_two_calls by simp
  from cleansing_stats_accumulate_over_calls [OF run _ second]
  have "sum_list (map (call_duplicates sensor_env) (take (Suc 1) ?cs)) = 4"
    by simp
  then show ?thesis
    unfolding sample_two_calls by simp
qed

section \<open>The full load\<close>

lemma read_csv_full:
  "files e filepath = Some (HeaderLine names # lines) \<Longrightarrow>
     read_csv e filepath [] None = Inr (Keyed (data_rows lines))"
  by (simp add: read_csv_def with_header_def)

lemma insert_loop_reachable:
  assumes "\<forall>k b. store e k b \<noteq> Unreachable"
  shows "\<exists>n. fst (insert_loop e bsize records idxs c w) = Inr n"
proof -
  from insert_loop_run [of idxs e bsize records c w] obtain j where
    "let outs = outcomes e (length (sent w))
                     (map (\<lambda>i. slice records i (i + bsize)) (take j idxs))
        in (fst (insert_loop e bsize records idxs c w) = Inl ConnectionFailure
              \<and> Unreachable \<in> set outs)
         \<or> (fst (insert_loop e bsize records idxs c w) = Inr (c + sum_list (map reported outs))
              \<and> Unreachable \<notin> set outs \<and> j = length idxs)"
    by blast
  then show ?thesis
    using assms outcomes_from_store [of Unreachable e] unfolding Let_def by blast
qed

lemma scenario_cleanse:
  assumes dup2: "subset_key r2 = subset_key r1" and dup5: "subset_key r5 = subset_key r4"
    and miss: "device r8 = NaN"
    and dist: "distinct (map subset_key [r1, r3, r4, r6, r7, r9, r10])"
    and full: "\<forall>r \<in> set [r1, r3, r4, r6, r7, r9, r10]. ts r \<noteq> NaN \<and> device r \<noteq> NaN"
  shows "drop_duplicates [r1, r2, r3, r4, r5, r6, r7, r8, r9, r10]
           = [r1, r3, r4, r6, r7, r8, r9, r10]"
    and "dropna [r1, r3, r4, r6, r7, r8, r9, r10] = [r1, r3, r4, r6, r7, r9, r10]"
proof -
  have k8: "subset_key r8 \<noteq> subset_key r" if "r \<in> set [r1, r3, r4, r6, r7, r9, r10]" for r
    using full miss that by (auto simp: subset_key_def)
  have "distinct (rev (map subset_key [r1, r3, r4, r6, r7, r9, r10]))"
    using dist by (simp only: distinct_rev)
  then have rdist: "distinct (map subset_key [r10, r9, r7, r6, r4, r3, r1])"
    by (simp only: rev.simps list.map append.simps)
  have seen8: "subset_key r9 \<noteq> subset_key r8" "subset_key r10 \<noteq> subset_key r8"
    using k8 [of r9] k8 [of r10] by auto
  show "drop_duplicates [r1, r2, r3, r4, r5, r6, r7, r8, r9, r10]
           = [r1, r3, r4, r6, r7, r8, r9, r10]"
    using dup2 dup5 rdist k8 seen8 by (simp add: drop_duplicates_def)
  show "dropna [r1, r3, r4, r6, r7, r8, r9, r10] = [r1, r3, r4, r6, r7, r9, r10]"
    using full miss by (simp add: dropna_def)
qed

text \<open>
  C3, as the code has it. On a new loader with a \<open>batch_size\<close> other than 0 and a store
  that can be reached, \<open>load_full_csv\<close> of a file whose first line names the columns and
  whose other lines give ten data rows, in which rows 2 and 5
  repeat the \<open>(ts, device)\<close> of rows 1 and 4, row 8 has no \<open>device\<close>, and the other seven
  rows are complete and pairwise different in \<open>(ts, device)\<close>, returns statistics with
  \<open>total_rows_read = 10\<close> (the key that the full load uses for the rows read),
  \<open>rows_after_cleansing = 7\<close> and \<open>cleansing_stats\<close> of two duplicates removed and one
  row dropped for a missing value.
\<close>

theorem full_load_of_ten_row_file:
  assumes opened: "files e filepath = Some (HeaderLine names # lines)"
    and rows: "data_rows lines = [r1, r2, r3, r4, r5, r6, r7, r8, r9, r10]"
    and dup2: "subset_key r2 = subset_key r1" and dup5: "subset_key r5 = subset_key r4"
    and miss: "device r8 = NaN"
    and dist: "distinct (map subset_key [r1, r3, r4, r6, r7, r9, r10])"
    and full: "\<forall>r \<in> set [r1, r3, r4, r6, r7, r9, r10]. ts r \<noteq> NaN \<and> device r \<noteq> NaN"
    and bsize: "bsize \<noteq> 0"
    and reachable: "\<forall>k b. store e k b \<noteq> Unreachable"
  shows "\<exists>n bid' self' w'.
           load_full_csv e (BatchLoader_init bsize) filepath bid w =
             (Inr [(''total_rows_read'', PyInt 10),
                   (''rows_after_cleansing'', PyInt 7),
                   (''rows_inserted'', PyInt n),
                   (''cleansing_stats'',
                      PyStats \<lparr>duplicates_removed = 2, missing_values_dropped = 1\<rparr>),
                   (''batch_id'', PyStr bid')], self', w')"
proof -
  let ?rows = "[r1, r2, r3, r4, r5, r6, r7, r8, r9, r10]"
  let ?self = "BatchLoader_init bsize"
  obtain bid' w0 where db: "default_batch_id e bid w = (bid', w0)"
    by (cases "default_batch_id e bid w")
  let ?mk = "\<lambda>t. \<lparr>ingested_at = t, batch_id = bid', source_rows = None\<rparr>"
  have rd: "read_csv e filepath [] None = Inr (Keyed ?rows)"
    using read_csv_full [OF opened] rows by simp
  have cleansed: "fst (cleanse (cleaner ?self) ?rows) = [r1, r3, r4, r6, r7, r9, r10]"
    by (simp only: fst_cleanse scenario_cleanse [OF dup2 dup5 miss dist full])
  have counted: "stats (snd (cleanse (cleaner ?self) ?rows))
                   = \<lparr>duplicates_removed = 2, missing_values_dropped = 1\<rparr>"
    unfolding stats_cleanse scenario_cleanse [OF dup2 dup5 miss dist full]
    by (simp add: BatchLoader_init_def DataCleaner_init_def len_def)
  obtain records w1 where
    am: "apply_metadata e ?mk (fst (cleanse (cleaner ?self) ?rows)) w0 = (records, w1)"
    by (cases "apply_metadata e ?mk (fst (cleanse (cleaner ?self) ?rows)) w0")
  have "batch_size ?self \<noteq> 0"
    using bsize by (simp add: BatchLoader_init_def)
  from range3_sub_batches [OF this, of records] obtain idxs
    where idxs: "range3 0 (len records) (batch_size ?self) = Inr idxs"
    by blast
  obtain r w2 where il: "insert_loop e (batch_size ?self) records idxs 0 w1 = (r, w2)"
    by (cases "insert_loop e (batch_size ?self) records idxs 0 w1")
  from insert_loop_reachable [OF reachable, of "batch_size ?self" records idxs 0 w1]
  obtain n where n: "r = Inr n"
    using il by auto
  have "load_full_csv e ?self filepath bid w =
          (Inr [(''total_rows_read'', PyInt 10),
                (''rows_after_cleansing'', PyInt 7),
                (''rows_inserted'', PyInt n),
                (''cleansing_stats'',
                   PyStats \<lparr>duplicates_removed = 2, missing_values_dropped = 1\<rparr>),
                (''batch_id'', PyStr bid')],
           ?self\<lparr>cleaner := snd (cleanse (cleaner ?self) ?rows)\<rparr>, w2)"
    unfolding load_full_csv_unfold [OF db rd am idxs il] n counted cleansed
    by (simp add: len_def)
  then show ?thesis by blast
qed

lemma sample_full:
  "fst (load_full_csv sensor_env (BatchLoader_init 1000) ''sensors.csv'' None fresh_world) =
     Inr [(''total_rows_read'', PyInt 10), (''rows_after_cleansing'', PyInt 7),
          (''rows_inserted'', PyInt 7),
          (''cleansing_stats'', PyStats \<lparr>duplicates_removed = 2, missing_values_dropped = 1\<rparr>),
          (''batch_id'', PyStr ''full_20240517_093000'')]"
  by code_simp

theorem full_load_of_ten_row_file_witness:
  "fst (load_full_csv sensor_env (BatchLoader_init 1000) ''sensors.csv'' None fresh_world) =
     Inr [(''total_rows_read'', PyInt 10), (''rows_after_cleansing'', PyInt 7),
          (''rows_inserted'', PyInt 7),
          (''cleansing_stats'', PyStats \<lparr>duplicates_removed = 2, missing_values_dropped = 1\<rparr>),
          (''batch_id'', PyStr ''full_20240517_093000'')]"
proof -
  have opened: "files sensor_env ''sensors.csv'' = Some (HeaderLine [] # map DataLine sensor_rows)"
    by (simp add: sensor_env_def)
  have rows: "data_rows (map DataLine sensor_rows)
      = [reading 1 ''A'', reading 1 ''A'', reading 2 ''A'', reading 3 ''B'', reading 3 ''B'',
         reading 4 ''B'', reading 5 ''C'', \<lparr>ts = Num 6, device = NaN, other = []\<rparr>,
         reading 7 ''C'', reading 8 ''C'']"
    by (simp add: sensor_rows_def)
  have "\<exists>n bid' self' w'.
           load_full_csv sensor_env (BatchLoader_init 1000) ''sensors.csv'' None fresh_world =
             (Inr [(''total_rows_read'', PyInt 10),
                   (''rows_after_cleansing'', PyInt 7),
                   (''rows_inserted'', PyInt n),
                   (''cleansing_stats'',
                      PyStats \<lparr>duplicates_removed = 2, missing_values_dropped = 1\<rparr>),
                   (''batch_id'', PyStr bid')], self', w')"
    by (rule full_load_of_ten_row_file [OF opened rows])
       (simp_all add: subset_key_def reading_def sensor_env_def)
  then show ?thesis
    by (simp add: sample_full)
qed

text \<open>
  C3 as stated fails: the statistics that \<open>load_full_csv\<close> returns for the sample file have
  no entry \<open>rows_read\<close>; the count of rows read is under \<open>total_rows_read\<close>.
\<close>

theorem full_load_has_no_rows_read:
  "(case fst (load_full_csv sensor_env (BatchLoader_init 1000) ''sensors.csv'' None fresh_world) of
      Inl err \<Rightarrow> False
    | Inr st \<Rightarrow> map_of st ''rows_read'' = None
                 \<and> map_of st ''total_rows_read'' = Some (PyInt 10))"
  by (simp add: sample_full)

end
